theory Spec2Isabelle
  imports Complex_Main "HOL-Library.Product_Lexorder" "HOL-Library.Multiset"
begin

section \<open>Atom fitting of liGAN (generate.py): a shallow embedding\<close>

text \<open>
  The embedding follows \<^verbatim>\<open>src/generate.py\<close>. Tensor entries are Python/torch floats in
  the source; they are idealised as \<^typ>\<open>real\<close> here, so rounding, infinities and NaN are
  outside the model. Library calls whose code is not part of the repository (the molgrid
  renderer, the Adam optimiser) are parameters of the definitions that use them.
\<close>

datatype py_error =
    IndexError
  | ValueError string
  | ZeroDivisionError
  | UnboundLocalError

subsection \<open>Python list slicing\<close>

text \<open>\<^verbatim>\<open>xs[:k]\<close>: the first \<open>k\<close> entries, or all but the last \<open>-k\<close> when \<open>k\<close> is negative.\<close>

definition py_slice_to :: "int \<Rightarrow> 'a list \<Rightarrow> 'a list" where
  "py_slice_to k xs =
     (if 0 \<le> k then take (nat k) xs else take (length xs - nat (- k)) xs)"

subsection \<open>AtomFitter.fit: the beam search (lines 419-564)\<close>

text \<open>
  An entry of \<^verbatim>\<open>best_structs\<close> is the tuple
  \<^verbatim>\<open>(objective, struct_id, xyz, c, xyz_next, c_next)\<close>. A row of \<^verbatim>\<open>xyz\<close> together with
  the same row of \<^verbatim>\<open>c\<close> is one atom of type \<open>'a\<close>, so \<^verbatim>\<open>(xyz, c)\<close> is an atom list and
  \<^verbatim>\<open>torch.cat\<close> is list append. The objective is a float, or a pair of floats compared
  lexicographically when \<^verbatim>\<open>constrain_types\<close> is set: any linear order \<open>'o\<close>.
  The elapsed time stored in \<^verbatim>\<open>visited_structs\<close> is left out.
\<close>

type_synonym ('o, 'a) struct_entry = "'o \<times> nat \<times> 'a list \<times> 'a list"

type_synonym ('o, 'a) visited_entry = "'o \<times> nat \<times> 'a list"

definition entry_objective :: "('o, 'a) struct_entry \<Rightarrow> 'o" where
  "entry_objective s = fst s"

definition entry_id :: "('o, 'a) struct_entry \<Rightarrow> nat" where
  "entry_id s = fst (snd s)"

definition entry_xyz :: "('o, 'a) struct_entry \<Rightarrow> 'a list" where
  "entry_xyz s = fst (snd (snd s))"

definition entry_next :: "('o, 'a) struct_entry \<Rightarrow> 'a list" where
  "entry_next s = snd (snd (snd s))"

text \<open>
  The fitter's configuration, as far as the search reads it. \<open>gd_refine\<close> is the structure
  returned by \<^verbatim>\<open>fit_gd(grid_true, xyz_new, c_new, interm_gd_iters)\<close>, \<open>gd_objective\<close> the
  objective computed from its loss and the type counts (lines 454-460), \<open>next_atoms\<close> the
  result of \<^verbatim>\<open>detect_atoms\<close> on the residual of that structure (lines 467-473).
\<close>

record ('o, 'a) atom_fitter =
  beam_size :: int
  multi_atom :: bool
  gd_refine :: "'a list \<Rightarrow> 'a list"
  gd_objective :: "'a list \<Rightarrow> 'o"
  next_atoms :: "'a list \<Rightarrow> 'a list"

text \<open>The variables of \<^verbatim>\<open>fit\<close> that the search loop reads and writes.\<close>

record ('o, 'a) fit_vars =
  best_structs :: "('o, 'a) struct_entry list"
  new_best_structs :: "('o, 'a) struct_entry list"
  found_new_best_struct :: bool
  expanded_ids :: "nat set"
  visited_structs :: "('o, 'a) visited_entry list"
  struct_count :: nat
  xyz_new :: "'a list option"

text \<open>Line 463 and 515: \<^verbatim>\<open>any(objective_new < s[0] for s in best_structs)\<close>.\<close>

definition is_new_best :: "'o::linorder \<Rightarrow> ('o, 'a) struct_entry list \<Rightarrow> bool" where
  "is_new_best objective_new pool = list_ex (\<lambda>s. objective_new < entry_objective s) pool"

text \<open>
  One expansion attempt (lines 446-490, and 498-541 with a single atom): refine the parent
  with the added atoms, store the result when it is one of the best yet, log the visit.
  The second component says whether the attempt was stored.
\<close>

definition try_struct ::
  "('o::linorder, 'a) atom_fitter \<Rightarrow> nat \<Rightarrow> 'a list \<Rightarrow> 'a list \<Rightarrow> ('o, 'a) fit_vars
    \<Rightarrow> ('o, 'a) fit_vars \<times> bool" where
  "try_struct f struct_id xyz added v =
     (let xyz_new' = gd_refine f (xyz @ added);
          objective_new = gd_objective f xyz_new';
          stored = is_new_best objective_new (best_structs v);
          v1 = (if stored then
                  v\<lparr>new_best_structs := new_best_structs v @
                       [(objective_new, struct_count v, xyz_new', next_atoms f xyz_new')],
                    found_new_best_struct := True,
                    struct_count := struct_count v + 1\<rparr>
                else v)
      in (v1\<lparr>visited_structs := visited_structs v1 @ [(objective_new, struct_id, xyz_new')],
             xyz_new := Some xyz_new'\<rparr>, stored))"

text \<open>The body of the loop over \<^verbatim>\<open>best_structs\<close> (lines 436-543).\<close>

definition expand_struct ::
  "('o::linorder, 'a) atom_fitter \<Rightarrow> ('o, 'a) struct_entry \<Rightarrow> ('o, 'a) fit_vars
    \<Rightarrow> ('o, 'a) fit_vars" where
  "expand_struct f s v =
     (if entry_id s \<in> expanded_ids v then v
      else
        let (v1, do_single_atom) =
              (if multi_atom f then
                 (let (w, stored) = try_struct f (entry_id s) (entry_xyz s) (entry_next s) v
                  in (w, \<not> stored))
               else (v, True));
            v2 = (if do_single_atom then
                    foldl (\<lambda>w a. fst (try_struct f (entry_id s) (entry_xyz s) [a] w))
                      v1 (entry_next s)
                  else v1)
        in v2\<lparr>expanded_ids := insert (entry_id s) (expanded_ids v2)\<rparr>)"

text \<open>
  Line 547: \<^verbatim>\<open>sorted(best_structs + new_best_structs)[:self.beam_size]\<close>. Python compares
  the tuples by objective, then by \<^verbatim>\<open>struct_id\<close>; the ids of distinct entries differ, so
  the tensors behind them are never compared.
\<close>

definition entry_key :: "('o, 'a) struct_entry \<Rightarrow> 'o \<times> nat" where
  "entry_key s = (entry_objective s, entry_id s)"

definition merge_best ::
  "int \<Rightarrow> ('o::linorder, 'a) struct_entry list \<Rightarrow> ('o, 'a) struct_entry list
    \<Rightarrow> ('o, 'a) struct_entry list" where
  "merge_best k pool new = py_slice_to k (sort_key entry_key (pool @ new))"

text \<open>
  One pass of the \<^verbatim>\<open>while\<close> loop (lines 432-564). \<^verbatim>\<open>best_structs[0]\<close> on an empty list
  raises; so would reading \<^verbatim>\<open>xyz_new\<close> before any attempt assigned it.
\<close>

definition search_pass ::
  "('o::linorder, 'a) atom_fitter \<Rightarrow> ('o, 'a) fit_vars \<Rightarrow> py_error + ('o, 'a) fit_vars" where
  "search_pass f v =
     (let v0 = v\<lparr>new_best_structs := [], found_new_best_struct := False\<rparr>;
          v1 = foldl (\<lambda>w s. expand_struct f s w) v0 (best_structs v)
      in if found_new_best_struct v1 then
           (case merge_best (beam_size f) (best_structs v1) (new_best_structs v1) of
              [] \<Rightarrow> Inl IndexError
            | best # rest \<Rightarrow>
                (case xyz_new v1 of
                   None \<Rightarrow> Inl UnboundLocalError
                 | Some last_xyz \<Rightarrow>
                     Inr (v1\<lparr>best_structs := best # rest,
                              found_new_best_struct := \<not> (50 \<le> length last_xyz)\<rparr>)))
         else Inr v1)"

text \<open>Lines 420-427: the empty structure with id 0 is the only entry of the first pool.\<close>

definition init_vars ::
  "('o::linorder, 'a) atom_fitter \<Rightarrow> 'o \<Rightarrow> ('o, 'a) fit_vars" where
  "init_vars f objective =
     \<lparr>best_structs = [(objective, 0, [], next_atoms f [])],
      new_best_structs = [],
      found_new_best_struct = True,
      expanded_ids = {},
      visited_structs = [(objective, 0, [])],
      struct_count = 1,
      xyz_new = None\<rparr>"

text \<open>
  The \<^verbatim>\<open>while found_new_best_struct\<close> loop. Nothing bounds the number of passes for an
  arbitrary refiner, so the loop is a partial function: \<open>None\<close> is a search that never ends.
\<close>

partial_function (option) search_loop ::
  "('o::linorder, 'a) atom_fitter \<Rightarrow> ('o, 'a) fit_vars
    \<Rightarrow> (py_error + ('o, 'a) fit_vars) option" where
  "search_loop f v =
     (if found_new_best_struct v then
        (case search_pass f v of
           Inl e \<Rightarrow> Some (Inl e)
         | Inr v' \<Rightarrow> search_loop f v')
      else Some (Inr v))"

subsection \<open>Bookkeeping of one pass, and a worked search\<close>

definition pass_extends ::
  "('o::linorder, 'a) fit_vars \<Rightarrow> ('o, 'a) fit_vars \<Rightarrow> bool" where
  "pass_extends v w \<longleftrightarrow>
     best_structs w = best_structs v \<and>
     (\<exists>attempts stored.
        visited_structs w = visited_structs v @ attempts \<and>
        new_best_structs w = new_best_structs v @ stored \<and>
        map entry_objective stored =
          filter (\<lambda>obj. is_new_best obj (best_structs v)) (map fst attempts) \<and>
        (found_new_best_struct w \<longleftrightarrow> found_new_best_struct v \<or> stored \<noteq> []))"

definition demo_fitter :: "(real, nat) atom_fitter" where
  "demo_fitter =
     \<lparr>beam_size = 2, multi_atom = True,
      gd_refine = (\<lambda>xyz. xyz),
      gd_objective = (\<lambda>xyz. if length xyz = 50 then 1 else if xyz = [0] then 10
                             else if xyz = [1] then 20 else 100),
      next_atoms = (\<lambda>xyz. if xyz = [] then [0, 1] else if xyz = [0] then replicate 49 2
                           else if xyz = [1] then [5] else [])\<rparr>"

definition demo_pass1 :: "(real, nat) fit_vars" where
  "demo_pass1 =
     \<lparr>best_structs = [(10, 1, [0], replicate 49 2), (20, 2, [1], [5])],
      new_best_structs = [(10, 1, [0], replicate 49 2), (20, 2, [1], [5])],
      found_new_best_struct = True,
      expanded_ids = {0},
      visited_structs = [(100, 0, []), (100, 0, [0, 1]), (10, 0, [0]), (20, 0, [1])],
      struct_count = 3,
      xyz_new = Some [1]\<rparr>"

definition demo_pass2 :: "(real, nat) fit_vars" where
  "demo_pass2 =
     \<lparr>best_structs = [(1, 3, 0 # replicate 49 2, []), (10, 1, [0], replicate 49 2)],
      new_best_structs = [(1, 3, 0 # replicate 49 2, [])],
      found_new_best_struct = True,
      expanded_ids = {0, 1, 2},
      visited_structs = [(100, 0, []), (100, 0, [0, 1]), (10, 0, [0]), (20, 0, [1]),
                         (1, 1, 0 # replicate 49 2), (100, 2, [1, 5]), (100, 2, [1, 5])],
      struct_count = 4,
      xyz_new = Some [1, 5]\<rparr>"

definition demo_pass3 :: "(real, nat) fit_vars" where
  "demo_pass3 =
     \<lparr>best_structs = [(1, 3, 0 # replicate 49 2, []), (1, 4, 0 # replicate 49 2, [])],
      new_best_structs = [(1, 4, 0 # replicate 49 2, [])],
      found_new_best_struct = False,
      expanded_ids = {0, 1, 2, 3},
      visited_structs = [(100, 0, []), (100, 0, [0, 1]), (10, 0, [0]), (20, 0, [1]),
                         (1, 1, 0 # replicate 49 2), (100, 2, [1, 5]), (100, 2, [1, 5]),
                         (1, 3, 0 # replicate 49 2)],
      struct_count = 5,
      xyz_new = Some (0 # replicate 49 2)\<rparr>"

definition last_assigned :: "('o, 'a) fit_vars \<Rightarrow> bool" where
  "last_assigned v \<longleftrightarrow> (found_new_best_struct v \<longrightarrow> xyz_new v \<noteq> None)"

subsection \<open>Losses and the objective of the empty structure (lines 396-407)\<close>

text \<open>
  A grid is the list of its entries. \<^verbatim>\<open>values.abs().sum()\<close> and
  \<^verbatim>\<open>(values**2).sum() / 2.0\<close> are the two losses of the fitter.
\<close>

definition l1_loss :: "real list \<Rightarrow> real" where
  "l1_loss vals = sum_list (map abs vals)"

definition l2_loss :: "real list \<Rightarrow> real" where
  "l2_loss vals = sum_list (map (\<lambda>x. x ^ 2) vals) / 2"

definition fit_loss_of :: "bool \<Rightarrow> real list \<Rightarrow> real" where
  "fit_loss_of l1 vals = (if l1 then l1_loss vals else l2_loss vals)"

text \<open>
  The objective of struct 0: \<^verbatim>\<open>fit_loss.item()\<close>, or the tuple
  \<^verbatim>\<open>(type_loss.item(), fit_loss.item())\<close> under \<^verbatim>\<open>constrain_types\<close>. \<open>types\<close> is the
  vector of type counts in force at line 400 (the estimate, when \<^verbatim>\<open>estimate_types\<close>
  replaced it).
\<close>

definition initial_objective ::
  "bool \<Rightarrow> bool \<Rightarrow> real list \<Rightarrow> real list \<Rightarrow> real + real \<times> real" where
  "initial_objective constrain l1 type_counts vals =
     (let fit_loss = fit_loss_of l1 vals;
          type_loss = sum_list (map abs type_counts)
      in if constrain then Inr (type_loss, fit_loss) else Inl fit_loss)"

definition objective_fit_loss :: "real + real \<times> real \<Rightarrow> real" where
  "objective_fit_loss objective =
     (case objective of Inl fit_loss \<Rightarrow> fit_loss | Inr (type_loss, fit_loss) \<Rightarrow> fit_loss)"

text \<open>The magnitudes the specification speaks of: the L1 norm and the L2 norm of a field.\<close>

definition l1_magnitude :: "real list \<Rightarrow> real" where
  "l1_magnitude vals = (\<Sum>x\<leftarrow>vals. \<bar>x\<bar>)"

definition l2_magnitude :: "real list \<Rightarrow> real" where
  "l2_magnitude vals = sqrt (\<Sum>x\<leftarrow>vals. x\<^sup>2)"

subsection \<open>AtomFitter.fit_gd (lines 632-670)\<close>

text \<open>
  The atom types \<^verbatim>\<open>c\<close> and radii \<^verbatim>\<open>r\<close> do not change in the loop, so the renderer
  \<^verbatim>\<open>self.c2grid(xyz, c, r)\<close> is a function \<open>c2grid\<close> of the coordinates; it is set to
  the dimension and resolution of the target (lines 645-646), so that its output has the
  target's shape. \<^verbatim>\<open>loss.backward()\<close> followed by \<^verbatim>\<open>solver.step()\<close> moves the
  coordinates by a function of the optimiser's state and the coordinates: \<open>solver_step\<close>.
  \<open>gd_steps\<close> counts the calls of \<^verbatim>\<open>solver.step()\<close>; it is not a variable of the source.
\<close>

record ('s, 'x) gd_setup =
  fit_L1_loss :: bool
  c2grid :: "'x list \<Rightarrow> real list"
  solver_step :: "'s \<times> 'x list \<Rightarrow> 's \<times> 'x list"

record ('s, 'x) gd_vars =
  gd_solver :: 's
  gd_xyz :: "'x list"
  gd_pred :: "real list"
  gd_diff :: "real list"
  gd_loss :: real
  gd_steps :: nat

text \<open>Lines 652-657.\<close>

definition gd_forward ::
  "('s, 'x) gd_setup \<Rightarrow> real list \<Rightarrow> ('s, 'x) gd_vars \<Rightarrow> ('s, 'x) gd_vars" where
  "gd_forward g vals v =
     (let grid_pred = c2grid g (gd_xyz v);
          grid_diff = map2 (-) vals grid_pred
      in v\<lparr>gd_pred := grid_pred, gd_diff := grid_diff,
            gd_loss := fit_loss_of (fit_L1_loss g) grid_diff\<rparr>)"

text \<open>Lines 662-663.\<close>

definition gd_backward_step :: "('s, 'x) gd_setup \<Rightarrow> ('s, 'x) gd_vars \<Rightarrow> ('s, 'x) gd_vars" where
  "gd_backward_step g v =
     (let (solver, xyz) = solver_step g (gd_solver v, gd_xyz v)
      in v\<lparr>gd_solver := solver, gd_xyz := xyz, gd_steps := gd_steps v + 1\<rparr>)"

text \<open>\<^verbatim>\<open>for i in range(n_iters + 1)\<close>, left by \<^verbatim>\<open>break\<close> when \<^verbatim>\<open>i == n_iters\<close>.\<close>

function gd_loop ::
  "('s, 'x) gd_setup \<Rightarrow> real list \<Rightarrow> int \<Rightarrow> int \<Rightarrow> ('s, 'x) gd_vars \<Rightarrow> ('s, 'x) gd_vars" where
  "gd_loop g vals n_iters i v =
     (if i < n_iters + 1 then
        (let v1 = gd_forward g vals v
         in if i = n_iters then v1
            else gd_loop g vals n_iters (i + 1) (gd_backward_step g v1))
      else v)"
  by pat_completeness auto
termination
  by (relation "measure (\<lambda>(g, vals, n_iters, i, v). nat (n_iters + 1 - i))") auto

declare gd_loop.simps [simp del]

text \<open>
  With an empty range the loop body never assigns \<^verbatim>\<open>grid_pred\<close>, and the
  \<^verbatim>\<open>return\<close> raises. The result is the returned tuple and the number of optimiser steps.
\<close>

definition fit_gd ::
  "('s, 'x) gd_setup \<Rightarrow> 's \<Rightarrow> real list \<Rightarrow> 'x list \<Rightarrow> int
    \<Rightarrow> py_error + ('x list \<times> real list \<times> real list \<times> real) \<times> nat" where
  "fit_gd g solver vals xyz n_iters =
     (if n_iters + 1 \<le> 0 then Inl UnboundLocalError
      else
        let v = gd_loop g vals n_iters 0
                  \<lparr>gd_solver = solver, gd_xyz = xyz, gd_pred = [], gd_diff = [],
                   gd_loss = 0, gd_steps = 0\<rparr>
        in Inr ((gd_xyz v, gd_pred v, gd_diff v, gd_loss v), gd_steps v))"

definition gd_round ::
  "('s, 'x) gd_setup \<Rightarrow> real list \<Rightarrow> ('s, 'x) gd_vars \<Rightarrow> ('s, 'x) gd_vars" where
  "gd_round g vals v = gd_backward_step g (gd_forward g vals v)"

definition demo_gd :: "(unit, real) gd_setup" where
  "demo_gd = \<lparr>fit_L1_loss = False, c2grid = (\<lambda>xyz. xyz),
              solver_step = (\<lambda>(s, xyz). (s, map (\<lambda>x. x + 1) xyz))\<rparr>"

subsection \<open>AtomFitter.detect_atoms (lines 232-346)\<close>

text \<open>
  The grid is the list \<^verbatim>\<open>grid.flatten()\<close> of its \<open>n_channels * grid_dim ^ 3\<close> entries, in
  row-major order of \<^verbatim>\<open>(channel, x, y, z)\<close>. A tensor indexed by a channel (the radii of
  \<^verbatim>\<open>channels\<close>, the type counts \<^verbatim>\<open>types\<close>) is a function of the channel index.
  An option \<open>None\<close> for \<^verbatim>\<open>peak_value\<close>, \<^verbatim>\<open>threshold\<close> and \<^verbatim>\<open>min_dist\<close> stands for
  Python's \<^verbatim>\<open>None\<close> and for the infinite value that switches the step off.
\<close>

record detector =
  apply_conv :: bool
  peak_value :: "real option"
  threshold :: "real option"
  min_dist :: "real option"
  constrain_types :: bool
  n_atoms_detect :: int

record detect_args =
  grid :: "real list"
  n_channels :: nat
  grid_dim :: nat
  atomic_radius :: "nat \<Rightarrow> real"
  center :: "real \<times> real \<times> real"
  resolution :: real
  types :: "nat \<Rightarrow> real"
  kernel_weight :: "nat \<Rightarrow> nat \<Rightarrow> real"
  kernel_norm2 :: "nat \<Rightarrow> real"

text \<open>
  Lines 210-230. \<^verbatim>\<open>F.conv3d\<close> with zero padding and one group per channel is a linear
  map of the grid that keeps its shape: entry \<open>i\<close> of the result is the sum of the entries
  \<open>j\<close> of the grid weighted by the kernel entry \<open>kernel_weight i j\<close> that meets them,
  divided by the squared norm of the kernel of the channel of \<open>i\<close>.
\<close>

definition convolve :: "detect_args \<Rightarrow> real list \<Rightarrow> real list" where
  "convolve a g =
     map (\<lambda>i. (\<Sum>j\<leftarrow>[0..<length g]. kernel_weight a i j * g ! j)
                / kernel_norm2 a (i div (grid_dim a) ^ 3))
       [0..<length g]"

text \<open>Lines 259-261: \<^verbatim>\<open>peak_value - (peak_value - grid).abs()\<close>.\<close>

definition reflect_peak :: "real option \<Rightarrow> real list \<Rightarrow> real list" where
  "reflect_peak pv g = (case pv of None \<Rightarrow> g | Some p \<Rightarrow> map (\<lambda>x. p - \<bar>p - x\<bar>) g)"

text \<open>
  Line 264: \<^verbatim>\<open>torch.sort(grid.flatten(), descending=True)\<close>, values with their indices.
  Entries of equal value are kept in index order here; torch leaves their order open.
\<close>

definition sort_descending :: "real list \<Rightarrow> (real \<times> nat) list" where
  "sort_descending g = sort_key (\<lambda>p. - fst p) (zip g [0..<length g])"

text \<open>A sorted grid entry: value, channel index, spatial index (lines 266-271).\<close>

record grid_point =
  gp_value :: real
  gp_c :: nat
  gp_idx :: "nat \<times> nat \<times> nat"

definition unravel :: "nat \<Rightarrow> nat \<Rightarrow> real \<times> nat \<Rightarrow> grid_point" where
  "unravel n_ch gdim p =
     (let idx = snd p;
          idx_z = idx mod gdim; idx1 = idx div gdim;
          idx_y = idx1 mod gdim; idx2 = idx1 div gdim;
          idx_x = idx2 mod gdim; idx3 = idx2 div gdim;
          idx_c = idx3 mod n_ch
      in \<lparr>gp_value = fst p, gp_c = idx_c, gp_idx = (idx_x, idx_y, idx_z)\<rparr>)"

text \<open>Lines 273-285: the threshold on the values, and the channels with atoms left.\<close>

definition apply_threshold :: "real option \<Rightarrow> grid_point list \<Rightarrow> grid_point list" where
  "apply_threshold th ps =
     (case th of None \<Rightarrow> ps | Some t \<Rightarrow> filter (\<lambda>p. gp_value p > t) ps)"

definition has_atoms_left :: "bool \<Rightarrow> (nat \<Rightarrow> real) \<Rightarrow> grid_point list \<Rightarrow> grid_point list" where
  "has_atoms_left constrain ty ps = (if constrain then filter (\<lambda>p. ty (gp_c p) > 0) ps else ps)"

text \<open>A candidate atom: its grid value, channel and coordinates (lines 294-296).\<close>

record atom =
  at_value :: real
  at_c :: nat
  at_xyz :: "real \<times> real \<times> real"

definition locate :: "detect_args \<Rightarrow> grid_point \<Rightarrow> atom" where
  "locate a p =
     (let shift = resolution a * (real (grid_dim a) - 1) / 2;
          (cx, cy, cz) = center a;
          (ix, iy, iz) = gp_idx p
      in \<lparr>at_value = gp_value p, at_c = gp_c p,
          at_xyz = (cx - shift + resolution a * real ix,
                    cy - shift + resolution a * real iy,
                    cz - shift + resolution a * real iz)\<rparr>)"

text \<open>The candidates that reach the suppression step, in the order of the sort.\<close>

definition detect_candidates :: "detector \<Rightarrow> detect_args \<Rightarrow> atom list" where
  "detect_candidates d a =
     (let g1 = (if apply_conv d then convolve a (grid a) else grid a);
          g2 = reflect_peak (peak_value d) g1;
          ps = map (unravel (n_channels a) (grid_dim a)) (sort_descending g2);
          ps1 = apply_threshold (threshold d) ps;
          ps2 = has_atoms_left (constrain_types d) (types a) ps1
      in map (locate a) ps2)"

text \<open>
  Lines 306-309: entry \<open>(i, j)\<close> of \<^verbatim>\<open>(dist2 < min_dist2) & same_type\<close>, for atoms
  \<open>x\<close> and \<open>y\<close> in rows \<open>i\<close> and \<open>j\<close>.
\<close>

definition dist2 :: "real \<times> real \<times> real \<Rightarrow> real \<times> real \<times> real \<Rightarrow> real" where
  "dist2 p q =
     (case p of (px, py, pz) \<Rightarrow> case q of (qx, qy, qz) \<Rightarrow>
        (px - qx) ^ 2 + (py - qy) ^ 2 + (pz - qz) ^ 2)"

definition too_close :: "real \<Rightarrow> (nat \<Rightarrow> real) \<Rightarrow> atom \<Rightarrow> atom \<Rightarrow> bool" where
  "too_close md r x y \<longleftrightarrow>
     dist2 (at_xyz x) (at_xyz y) < (md * (r (at_c x) + r (at_c y))) ^ 2 \<and> at_c x = at_c y"

text \<open>
  Lines 305-320, the matrix path: row \<open>i\<close> of the strictly lower triangle has an entry
  set when some atom \<open>j < i\<close> is too close to atom \<open>i\<close>; such rows are masked out.
\<close>

definition nms_matrix :: "real \<Rightarrow> (nat \<Rightarrow> real) \<Rightarrow> atom list \<Rightarrow> atom list" where
  "nms_matrix md r atoms =
     map (\<lambda>i. atoms ! i)
       (filter (\<lambda>i. \<not> list_ex (\<lambda>j. too_close md r (atoms ! i) (atoms ! j)) [0..<i])
          [0..<length atoms])"

text \<open>
  Lines 322-336, the loop path: \<open>kept\<close> is \<^verbatim>\<open>(xyz_max, idx_c_max)\<close>; atom \<open>i\<close> is
  appended unless it is too close to an atom already in \<open>kept\<close>.
\<close>

fun nms_loop :: "real \<Rightarrow> (nat \<Rightarrow> real) \<Rightarrow> atom list \<Rightarrow> atom list \<Rightarrow> atom list" where
  "nms_loop md r kept [] = kept"
| "nms_loop md r kept (x # rest) =
     (if list_ex (\<lambda>y. too_close md r x y) kept then nms_loop md r kept rest
      else nms_loop md r (kept @ [x]) rest)"

text \<open>
  Lines 298-336. The loop path starts from \<^verbatim>\<open>xyz[0]\<close>; it is entered with 1000 atoms or
  more, so the list is not empty there.
\<close>

definition suppress :: "detector \<Rightarrow> (nat \<Rightarrow> real) \<Rightarrow> atom list \<Rightarrow> atom list" where
  "suppress d r atoms =
     (case min_dist d of
        None \<Rightarrow> atoms
      | Some md \<Rightarrow>
          if md > 0 \<and> n_atoms_detect d > 1 then
            (if length atoms < 1000 then nms_matrix md r atoms
             else (case atoms of [] \<Rightarrow> [] | x # rest \<Rightarrow> nms_loop md r [x] rest))
          else atoms)"

definition detect_survivors :: "detector \<Rightarrow> detect_args \<Rightarrow> atom list" where
  "detect_survivors d a = suppress d (atomic_radius a) (detect_candidates d a)"

text \<open>Lines 338-346: the limit on the number of atoms; the result is \<^verbatim>\<open>(xyz, c)\<close>.\<close>

definition limit_atoms :: "int \<Rightarrow> 'a list \<Rightarrow> 'a list" where
  "limit_atoms n xs = (if n \<ge> 0 then py_slice_to n xs else xs)"

definition detect_atoms :: "detector \<Rightarrow> detect_args \<Rightarrow> ((real \<times> real \<times> real) \<times> nat) list" where
  "detect_atoms d a =
     map (\<lambda>x. (at_xyz x, at_c x)) (limit_atoms (n_atoms_detect d) (detect_survivors d a))"

text \<open>
  The specification's suppression rule: atom \<open>y\<close> lies within the distance
  \<open>min_dist * (r_a + r_b)\<close> of atom \<open>x\<close> of the same channel.
\<close>

definition distance :: "real \<times> real \<times> real \<Rightarrow> real \<times> real \<times> real \<Rightarrow> real" where
  "distance p q = sqrt (dist2 p q)"

definition within_min_dist :: "real \<Rightarrow> (nat \<Rightarrow> real) \<Rightarrow> atom \<Rightarrow> atom \<Rightarrow> bool" where
  "within_min_dist md r x y \<longleftrightarrow>
     at_c x = at_c y \<and> distance (at_xyz x) (at_xyz y) < md * (r (at_c x) + r (at_c y))"

definition suppressed_by_earlier :: "real \<Rightarrow> (nat \<Rightarrow> real) \<Rightarrow> atom list \<Rightarrow> nat \<Rightarrow> bool" where
  "suppressed_by_earlier md r atoms i \<longleftrightarrow>
     list_ex (\<lambda>j. within_min_dist md r (atoms ! j) (atoms ! i)) [0..<i]"

text \<open>The order of the candidates: by descending grid value.\<close>

abbreviation by_value :: "atom \<Rightarrow> atom \<Rightarrow> bool" where
  "by_value x y \<equiv> at_value y \<le> at_value x"

subsection \<open>Worked inputs of the detector\<close>

definition demo_detector :: detector where
  "demo_detector =
     \<lparr>apply_conv = False, peak_value = Some 1.5, threshold = Some 0.5, min_dist = Some 1,
      constrain_types = False, n_atoms_detect = 2\<rparr>"

definition demo_args :: detect_args where
  "demo_args =
     \<lparr>grid = [1, 0.9, 0, 0, 0, 0, 0, 0], n_channels = 1, grid_dim = 2,
      atomic_radius = (\<lambda>c. 1), center = (0, 0, 0), resolution = 1, types = (\<lambda>c. 0),
      kernel_weight = (\<lambda>i j. 0), kernel_norm2 = (\<lambda>c. 1)\<rparr>"

definition demo_first :: atom where
  "demo_first = \<lparr>at_value = 1, at_c = 0, at_xyz = (- 1 / 2, - 1 / 2, - 1 / 2)\<rparr>"

definition demo_second :: atom where
  "demo_second = \<lparr>at_value = 0.9, at_c = 0, at_xyz = (- 1 / 2, - 1 / 2, 1 / 2)\<rparr>"

definition demo_unlimited :: detector where
  "demo_unlimited = demo_detector\<lparr>n_atoms_detect := - 1\<rparr>"

definition zero_args :: detect_args where
  "zero_args = demo_args\<lparr>grid := [0], grid_dim := 1\<rparr>"

definition lenient_detector :: detector where
  "lenient_detector = demo_detector\<lparr>threshold := Some (- 1), n_atoms_detect := 1\<rparr>"

definition line_atom :: "real \<Rightarrow> real \<Rightarrow> atom" where
  "line_atom v z = \<lparr>at_value = v, at_c = 0, at_xyz = (0, 0, z)\<rparr>"

definition chain_tail :: "atom list" where
  "chain_tail = map (\<lambda>k. line_atom (1 / (real k + 2)) (10 + real k)) [0..<997]"

definition chain_atoms :: "atom list" where
  "chain_atoms = line_atom 3 0 # line_atom 2 (3 / 2) # line_atom 1 3 # chain_tail"

subsection \<open>get_min_rmsd (lines 1703-1742)\<close>

text \<open>
  \<^verbatim>\<open>scipy.optimize.linear_sum_assignment\<close> returns an assignment of the rows of a square
  cost matrix to its columns of least total cost. Its result is used only through that
  cost, which is the least, over the orders of the second point list, of the sum of the
  squared distances of the points paired in order.
\<close>

fun interleave :: "'a \<Rightarrow> 'a list \<Rightarrow> 'a list list" where
  "interleave x [] = [[x]]"
| "interleave x (y # ys) = (x # y # ys) # map (\<lambda>zs. y # zs) (interleave x ys)"

fun permutations_of :: "'a list \<Rightarrow> 'a list list" where
  "permutations_of [] = [[]]"
| "permutations_of (x # xs) = concat (map (interleave x) (permutations_of xs))"

definition paired_cost :: "(real \<times> real \<times> real) list \<Rightarrow> (real \<times> real \<times> real) list \<Rightarrow> real" where
  "paired_cost ps qs = sum_list (map (\<lambda>(p, q). dist2 p q) (zip ps qs))"

definition assignment_cost ::
  "(real \<times> real \<times> real) list \<Rightarrow> (real \<times> real \<times> real) list \<Rightarrow> real" where
  "assignment_cost ps qs = min_list (map (paired_cost ps) (permutations_of qs))"

text \<open>
  Lines 1722-1729 and 1736-1737: the rows of \<^verbatim>\<open>xyz\<close> whose label is \<open>ch\<close>, after the
  rows were ordered by \<^verbatim>\<open>np.argsort\<close> of the labels. They are taken in their original
  order here; argsort leaves the order of rows with equal labels open.
\<close>

definition rows_of :: "(real \<times> real \<times> real) list \<Rightarrow> nat list \<Rightarrow> nat \<Rightarrow> (real \<times> real \<times> real) list" where
  "rows_of xyz c ch = map fst (filter (\<lambda>p. snd p = ch) (zip xyz c))"

text \<open>
  The function in exact arithmetic: squared distances and sums are real numbers, however
  large. The loop of lines 1733-1740 is \<open>min_ssd\<close>. Indexing \<^verbatim>\<open>xyz1[idx1]\<close> raises when \<^verbatim>\<open>xyz1\<close> has fewer rows than
  \<^verbatim>\<open>c1\<close> has labels. \<^verbatim>\<open>ssd\<close> starts as the Python float \<^verbatim>\<open>0.0\<close> and stays one when
  there is no channel to loop over, so that \<^verbatim>\<open>ssd/n_atoms\<close> with \<^verbatim>\<open>n_atoms = 0\<close> is a
  division of Python numbers by zero. The channels of \<^verbatim>\<open>set(c1)\<close> are summed in
  ascending order.
\<close>

definition min_ssd ::
  "(real \<times> real \<times> real) list \<Rightarrow> nat list \<Rightarrow> (real \<times> real \<times> real) list \<Rightarrow> nat list \<Rightarrow> real" where
  "min_ssd xyz1 c1 xyz2 c2 =
     (\<Sum>ch\<leftarrow>remdups (sort c1). assignment_cost (rows_of xyz1 c1 ch) (rows_of xyz2 c2 ch))"

definition get_min_rmsd ::
  "(real \<times> real \<times> real) list \<Rightarrow> nat list \<Rightarrow> (real \<times> real \<times> real) list \<Rightarrow> nat list
    \<Rightarrow> py_error + real" where
  "get_min_rmsd xyz1 c1 xyz2 c2 =
     (if length c1 \<noteq> length c2 then Inl (ValueError ''structs must have same num atoms'')
      else if sort c1 \<noteq> sort c2 then
        Inl (ValueError ''structs must have same num atoms of each type'')
      else if length xyz1 < length c1 \<or> length xyz2 < length c2 then Inl IndexError
      else
        let n_atoms = length c1;
            ssd = min_ssd xyz1 c1 xyz2 c2
        in if n_atoms = 0 then Inl ZeroDivisionError
           else Inr (sqrt (ssd / real n_atoms)))"




text \<open>Two points of one channel, in both orders, and a second pair.\<close>

definition pair_a :: "(real \<times> real \<times> real) list" where "pair_a = [(0, 0, 0), (1, 0, 0)]"

definition pair_a' :: "(real \<times> real \<times> real) list" where "pair_a' = [(1, 0, 0), (0, 0, 0)]"

definition pair_b :: "(real \<times> real \<times> real) list" where "pair_b = [(2, 0, 0), (3, 0, 0)]"

subsection \<open>get_min_rmsd with float64 overflow and the caller's arrays\<close>

text \<open>
  A float64 result whose exact value exceeds the largest finite float64 is \<^verbatim>\<open>inf\<close>,
  written \<open>None\<close>; rounding below that bound stays outside the model. From finite
  coordinates the squared distances, their sums and the root are never negative and
  never NaN.
\<close>

definition float64_max :: real where
  "float64_max = (2 - 1 / 2 ^ 52) * 2 ^ 1023"

definition f64 :: "real \<Rightarrow> real option" where
  "f64 x = (if \<bar>x\<bar> \<le> float64_max then Some x else None)"

definition f64_add :: "real option \<Rightarrow> real option \<Rightarrow> real option" where
  "f64_add a b = (case a of None \<Rightarrow> None | Some x \<Rightarrow> (case b of None \<Rightarrow> None | Some y \<Rightarrow> f64 (x + y)))"

definition f64_sum :: "real option list \<Rightarrow> real option" where
  "f64_sum es = foldl f64_add (Some 0) es"

text \<open>Line 1742 for \<^verbatim>\<open>n_atoms > 0\<close>: \<^verbatim>\<open>np.sqrt(ssd/n_atoms)\<close>.\<close>

definition f64_sqrt_mean :: "real option \<Rightarrow> nat \<Rightarrow> real option" where
  "f64_sqrt_mean ssd n = (case ssd of None \<Rightarrow> None | Some s \<Rightarrow> Some (sqrt (s / real n)))"

text \<open>Line 1738: the matrix of squared distances between two point lists.\<close>

definition dist2_matrix ::
  "(real \<times> real \<times> real) list \<Rightarrow> (real \<times> real \<times> real) list \<Rightarrow> real option list list" where
  "dist2_matrix ps qs = map (\<lambda>p. map (\<lambda>q. f64 (dist2 p q)) qs) ps"

text \<open>
  Lines 1739-1740. \<^verbatim>\<open>scipy.optimize.linear_sum_assignment\<close> takes an entry \<^verbatim>\<open>inf\<close> as
  a forbidden pairing. It returns the row indices and, for each row, its column, for an
  assignment of least total cost among those without a forbidden pairing, and raises
  \<^verbatim>\<open>ValueError\<close> when there is none. \<open>assigned_entries\<close> is \<^verbatim>\<open>dist2_c[idx1, idx2]\<close>.
  The matrix is square here: both structures have as many atoms of the channel.
\<close>

definition assigned_entries :: "real option list list \<Rightarrow> nat list \<Rightarrow> real option list" where
  "assigned_entries m cols = map (\<lambda>(i, j). m ! i ! j) (zip [0..<length m] cols)"

definition feasible :: "real option list list \<Rightarrow> nat list \<Rightarrow> bool" where
  "feasible m cols = list_all (\<lambda>e. e \<noteq> None) (assigned_entries m cols)"

definition total_cost :: "real option list list \<Rightarrow> nat list \<Rightarrow> real" where
  "total_cost m cols =
     sum_list (map (\<lambda>e. case e of None \<Rightarrow> 0 | Some x \<Rightarrow> x) (assigned_entries m cols))"

definition linear_sum_assignment ::
  "real option list list \<Rightarrow> py_error + nat list \<times> nat list" where
  "linear_sum_assignment m =
     (case filter (feasible m) (permutations_of [0..<length m]) of
        [] \<Rightarrow> Inl (ValueError ''cost matrix is infeasible'')
      | cols # others \<Rightarrow> Inr ([0..<length m], arg_min_list (total_cost m) (cols # others)))"

text \<open>
  The arrays of the program are objects of a heap, named by their position in it. Every
  numpy call of \<^verbatim>\<open>get_min_rmsd\<close> makes a new array; none writes into an old one.
\<close>

datatype py_array =
    Point_array "(real \<times> real \<times> real) list"
  | Int_array "nat list"
  | Float_matrix "real option list list"

type_synonym py_heap = "py_array list"

definition points_at :: "py_heap \<Rightarrow> nat \<Rightarrow> (real \<times> real \<times> real) list" where
  "points_at h a = (case h ! a of Point_array ps \<Rightarrow> ps | _ \<Rightarrow> [])"

definition ints_at :: "py_heap \<Rightarrow> nat \<Rightarrow> nat list" where
  "ints_at h a = (case h ! a of Int_array cs \<Rightarrow> cs | _ \<Rightarrow> [])"

definition matrix_at :: "py_heap \<Rightarrow> nat \<Rightarrow> real option list list" where
  "matrix_at h a = (case h ! a of Float_matrix m \<Rightarrow> m | _ \<Rightarrow> [])"

definition heap_new :: "py_heap \<Rightarrow> py_array \<Rightarrow> py_heap \<times> nat" where
  "heap_new h obj = (h @ [obj], length h)"

text \<open>
  \<^verbatim>\<open>np.argsort(c)\<close>, with rows of equal label in their original order, and the indexing
  \<^verbatim>\<open>c[idx]\<close> and \<^verbatim>\<open>xyz[idx]\<close>; the latter raises for an index beyond the rows.
\<close>

definition argsort :: "nat list \<Rightarrow> nat list" where
  "argsort c = sort_key (\<lambda>i. c ! i) [0..<length c]"

definition take_ints :: "nat list \<Rightarrow> nat list \<Rightarrow> nat list" where
  "take_ints c idx = map (\<lambda>i. c ! i) idx"

definition take_points ::
  "(real \<times> real \<times> real) list \<Rightarrow> nat list \<Rightarrow> py_error + (real \<times> real \<times> real) list" where
  "take_points xyz idx =
     (if list_all (\<lambda>i. i < length xyz) idx then Inr (map (\<lambda>i. xyz ! i) idx)
      else Inl IndexError)"

text \<open>
  Lines 1736-1740, the body of the loop for channel \<open>c\<close>: the rows of the channel
  (\<^verbatim>\<open>xyz1[c1 == c]\<close>), their matrix, the assignment, and the sum to add to \<^verbatim>\<open>ssd\<close>.
\<close>

definition rmsd_channel ::
  "py_heap \<Rightarrow> nat \<Rightarrow> nat \<Rightarrow> nat \<Rightarrow> nat \<Rightarrow> nat \<Rightarrow> (py_error + real option) \<times> py_heap" where
  "rmsd_channel h xyz1 c1 xyz2 c2 c =
     (let (h1, xyz1_c) = heap_new h (Point_array (rows_of (points_at h xyz1) (ints_at h c1) c));
          (h2, xyz2_c) = heap_new h1 (Point_array (rows_of (points_at h1 xyz2) (ints_at h1 c2) c));
          (h3, dist2_c) =
             heap_new h2 (Float_matrix (dist2_matrix (points_at h2 xyz1_c) (points_at h2 xyz2_c)))
      in case linear_sum_assignment (matrix_at h3 dist2_c) of
           Inl e \<Rightarrow> (Inl e, h3)
         | Inr (rows, cols) \<Rightarrow>
             (let (h4, idx1) = heap_new h3 (Int_array rows);
                  (h5, idx2) = heap_new h4 (Int_array cols)
              in (Inr (f64_sum (assigned_entries (matrix_at h5 dist2_c) (ints_at h5 idx2))),
                  h5)))"

text \<open>Line 1735, \<^verbatim>\<open>for c in set(c1)\<close>, over the channels still to visit.\<close>

fun rmsd_loop ::
  "py_heap \<Rightarrow> nat \<Rightarrow> nat \<Rightarrow> nat \<Rightarrow> nat \<Rightarrow> nat list \<Rightarrow> real option
    \<Rightarrow> (py_error + real option) \<times> py_heap" where
  "rmsd_loop h xyz1 c1 xyz2 c2 [] ssd = (Inr ssd, h)"
| "rmsd_loop h xyz1 c1 xyz2 c2 (c # cs) ssd =
     (case rmsd_channel h xyz1 c1 xyz2 c2 c of
        (Inl e, h') \<Rightarrow> (Inl e, h')
      | (Inr cost, h') \<Rightarrow> rmsd_loop h' xyz1 c1 xyz2 c2 cs (f64_add ssd cost))"

text \<open>Lines 1716-1719: the four copies. The result is the heap and the new arrays.\<close>

definition rmsd_copy ::
  "py_heap \<Rightarrow> nat \<Rightarrow> nat \<Rightarrow> nat \<Rightarrow> nat \<Rightarrow> py_heap \<times> nat \<times> nat \<times> nat \<times> nat" where
  "rmsd_copy h xyz1 c1 xyz2 c2 =
     (let (h1, xyz1a) = heap_new h (Point_array (points_at h xyz1));
          (h2, xyz2a) = heap_new h1 (Point_array (points_at h1 xyz2));
          (h3, c1a) = heap_new h2 (Int_array (ints_at h2 c1));
          (h4, c2a) = heap_new h3 (Int_array (ints_at h3 c2))
      in (h4, xyz1a, c1a, xyz2a, c2a))"

text \<open>Lines 1722-1725: the index arrays and the sorted labels.\<close>

definition rmsd_sort_labels ::
  "py_heap \<Rightarrow> nat \<Rightarrow> nat \<Rightarrow> py_heap \<times> nat \<times> nat \<times> nat \<times> nat" where
  "rmsd_sort_labels h c1 c2 =
     (let (h1, idx1) = heap_new h (Int_array (argsort (ints_at h c1)));
          (h2, idx2) = heap_new h1 (Int_array (argsort (ints_at h1 c2)));
          (h3, c1s) = heap_new h2 (Int_array (take_ints (ints_at h2 c1) (ints_at h2 idx1)));
          (h4, c2s) = heap_new h3 (Int_array (take_ints (ints_at h3 c2) (ints_at h3 idx2)))
      in (h4, idx1, idx2, c1s, c2s))"

text \<open>Lines 1728-1729: the coordinates in the order of the sorted labels.\<close>

definition rmsd_sort_points ::
  "py_heap \<Rightarrow> nat \<Rightarrow> nat \<Rightarrow> nat \<Rightarrow> nat \<Rightarrow> (py_error + nat \<times> nat) \<times> py_heap" where
  "rmsd_sort_points h xyz1 idx1 xyz2 idx2 =
     (case take_points (points_at h xyz1) (ints_at h idx1) of
        Inl e \<Rightarrow> (Inl e, h)
      | Inr rows1 \<Rightarrow>
          (let (h1, xyz1s) = heap_new h (Point_array rows1)
           in case take_points (points_at h1 xyz2) (ints_at h1 idx2) of
                Inl e \<Rightarrow> (Inl e, h1)
              | Inr rows2 \<Rightarrow>
                  (let (h2, xyz2s) = heap_new h1 (Point_array rows2)
                   in (Inr (xyz1s, xyz2s), h2))))"

text \<open>
  The call: the heap when it is made, and the places of its four arguments in it. The
  result is what the call returns or raises, and the heap it leaves. \<^verbatim>\<open>ssd\<close> is the Python
  float \<^verbatim>\<open>0.0\<close> until the loop adds to it, which it does unless there is no atom; so
  \<^verbatim>\<open>ssd/n_atoms\<close> divides Python numbers by zero exactly when \<^verbatim>\<open>n_atoms\<close> is 0.
\<close>

definition get_min_rmsd_call ::
  "py_heap \<Rightarrow> nat \<Rightarrow> nat \<Rightarrow> nat \<Rightarrow> nat \<Rightarrow> (py_error + real option) \<times> py_heap" where
  "get_min_rmsd_call h xyz1 c1 xyz2 c2 =
     (if length (ints_at h c1) \<noteq> length (ints_at h c2) then
        (Inl (ValueError ''structs must have same num atoms''), h)
      else
        let n_atoms = length (ints_at h c1);
            (h1, xyz1a, c1a, xyz2a, c2a) = rmsd_copy h xyz1 c1 xyz2 c2;
            (h2, idx1, idx2, c1s, c2s) = rmsd_sort_labels h1 c1a c2a
        in if ints_at h2 c1s \<noteq> ints_at h2 c2s then
             (Inl (ValueError ''structs must have same num atoms of each type''), h2)
           else
             (case rmsd_sort_points h2 xyz1a idx1 xyz2a idx2 of
                (Inl e, h3) \<Rightarrow> (Inl e, h3)
              | (Inr (xyz1s, xyz2s), h3) \<Rightarrow>
                  (case rmsd_loop h3 xyz1s c1s xyz2s c2s (remdups (ints_at h3 c1s)) (Some 0) of
                     (Inl e, h4) \<Rightarrow> (Inl e, h4)
                   | (Inr ssd, h4) \<Rightarrow>
                       if n_atoms = 0 then (Inl ZeroDivisionError, h4)
                       else (Inr (f64_sqrt_mean ssd n_atoms), h4))))"





definition near_heap :: py_heap where
  "near_heap = [Point_array [(0, 0, 0), (1, 0, 0)], Int_array [0, 0], Point_array [(3, 0, 0), (2, 0, 0)], Int_array [0, 0]]"



section \<open>Properties\<close>

subsection \<open>The beam search\<close>

lemma pass_extends_refl: "pass_extends v v"
  by (simp add: pass_extends_def)

lemma pass_extends_trans:
  assumes "pass_extends u v" and "pass_extends v w"
  shows "pass_extends u w"
proof -
  from assms(1) obtain a1 s1 where 1: "best_structs v = best_structs u"
    "visited_structs v = visited_structs u @ a1" "new_best_structs v = new_best_structs u @ s1"
    "map entry_objective s1 = filter (\<lambda>obj. is_new_best obj (best_structs u)) (map fst a1)"
    "found_new_best_struct v \<longleftrightarrow> found_new_best_struct u \<or> s1 \<noteq> []"
    unfolding pass_extends_def by blast
  from assms(2) obtain a2 s2 where 2: "best_structs w = best_structs v"
    "visited_structs w = visited_structs v @ a2" "new_best_structs w = new_best_structs v @ s2"
    "map entry_objective s2 = filter (\<lambda>obj. is_new_best obj (best_structs v)) (map fst a2)"
    "found_new_best_struct w \<longleftrightarrow> found_new_best_struct v \<or> s2 \<noteq> []"
    unfolding pass_extends_def by blast
  show ?thesis
    unfolding pass_extends_def
    apply (intro conjI)
     apply (simp add: 1 2)
    apply (rule exI [of _ "a1 @ a2"], rule exI [of _ "s1 @ s2"])
    using 1 2 apply simp
    done
qed

lemma try_struct_extends: "pass_extends v (fst (try_struct f i xyz added v))"
  unfolding pass_extends_def try_struct_def Let_def
  by (simp add: entry_objective_def)

lemma try_struct_stored:
  "snd (try_struct f i xyz added v) \<Longrightarrow> found_new_best_struct (fst (try_struct f i xyz added v))"
  unfolding try_struct_def Let_def by simp

lemma foldl_extends:
  assumes "\<And>w a. pass_extends w (g w a)"
  shows "pass_extends v (foldl g v xs)"
proof (induction xs arbitrary: v)
  case Nil
  show ?case by (simp add: pass_extends_refl)
next
  case (Cons a xs)
  show ?case using pass_extends_trans [OF assms [of v a] Cons.IH [of "g v a"]] by simp
qed

lemma expanded_ids_extends: "pass_extends v w \<Longrightarrow> pass_extends v (w\<lparr>expanded_ids := E\<rparr>)"
  by (simp add: pass_extends_def)

lemma expand_struct_extends: "pass_extends v (expand_struct f s v)"
proof (cases "entry_id s \<in> expanded_ids v")
  case True
  then show ?thesis by (simp add: expand_struct_def pass_extends_refl)
next
  case False
  let ?g = "\<lambda>w a. fst (try_struct f (entry_id s) (entry_xyz s) [a] w)"
  have single: "\<And>u. pass_extends u (foldl ?g u (entry_next s))"
    by (rule foldl_extends) (rule try_struct_extends)
  have joint: "pass_extends v (fst (try_struct f (entry_id s) (entry_xyz s) (entry_next s) v))"
    by (rule try_struct_extends)
  show ?thesis
    using False single [of v] joint
      pass_extends_trans [OF joint single [of "fst (try_struct f (entry_id s) (entry_xyz s) (entry_next s) v)"]]
    by (auto simp: expand_struct_def Let_def split_beta intro!: expanded_ids_extends)
qed

lemma search_fold_extends:
  "pass_extends v (foldl (\<lambda>w s. expand_struct f s w) v pool)"
  by (rule foldl_extends) (rule expand_struct_extends)

lemma py_slice_to_take: "\<exists>n. py_slice_to k xs = take n xs"
  by (auto simp: py_slice_to_def)

lemma py_slice_to_length: "0 \<le> k \<Longrightarrow> int (length (py_slice_to k xs)) \<le> k"
  by (simp add: py_slice_to_def)

lemma entry_key_mono:
  fixes s t :: "('o::linorder, 'a) struct_entry"
  shows "entry_key s \<le> entry_key t \<Longrightarrow> entry_objective s \<le> entry_objective t"
  by (auto simp: entry_key_def less_eq_prod_def intro: less_imp_le)

lemma sorted_key_objective:
  fixes xs :: "('o::linorder, 'a) struct_entry list"
  shows "sorted (map entry_key xs) \<Longrightarrow> sorted (map entry_objective xs)"
  by (induction xs) (auto simp: entry_key_mono)

lemma merge_best_sorted: "sorted (map entry_key (merge_best k pool new))"
proof -
  obtain n where "merge_best k pool new = take n (sort_key entry_key (pool @ new))"
    unfolding merge_best_def using py_slice_to_take by blast
  then show ?thesis
    by (simp flip: take_map)
qed

lemma merge_best_subset: "mset (merge_best k pool new) \<subseteq># mset pool + mset new"
proof -
  obtain n where n: "merge_best k pool new = take n (sort_key entry_key (pool @ new))"
    unfolding merge_best_def using py_slice_to_take by blast
  have "mset (take n (sort_key entry_key (pool @ new))) \<subseteq># mset (sort_key entry_key (pool @ new))"
    by (metis append_take_drop_id mset_append mset_subset_eq_add_left)
  then show ?thesis by (simp add: n)
qed

lemma merge_best_head_least:
  assumes "merge_best k pool new = m # rest" and "s \<in> set pool \<union> set new"
  shows "entry_objective m \<le> entry_objective s"
proof -
  let ?ys = "sort_key entry_key (pool @ new)"
  obtain n where n: "merge_best k pool new = take n ?ys"
    unfolding merge_best_def using py_slice_to_take by blast
  with assms(1) have tk: "take n ?ys = m # rest" by simp
  then obtain zs where ys: "?ys = m # zs"
    by (cases ?ys; cases n) auto
  have "sorted (map entry_key ?ys)" by simp
  with ys have "\<forall>t \<in> set ?ys. entry_key m \<le> entry_key t"
    by (auto simp del: sorted_sort_key)
  moreover have "s \<in> set ?ys" using assms(2) by simp
  ultimately show ?thesis by (simp add: entry_key_mono)
qed

lemma search_pass_cases:
  assumes "search_pass f v = Inr v'"
  defines "w \<equiv> foldl (\<lambda>w s. expand_struct f s w)
                 (v\<lparr>new_best_structs := [], found_new_best_struct := False\<rparr>) (best_structs v)"
  shows "new_best_structs v' = new_best_structs w"
    and "visited_structs v' = visited_structs w"
    and "found_new_best_struct w \<Longrightarrow>
           best_structs v' = merge_best (beam_size f) (best_structs v) (new_best_structs w)
           \<and> best_structs v' \<noteq> []
           \<and> (\<exists>last_xyz. xyz_new w = Some last_xyz \<and>
                 found_new_best_struct v' = (\<not> 50 \<le> length last_xyz))"
    and "\<not> found_new_best_struct w \<Longrightarrow> v' = w"
proof -
  have ext: "pass_extends (v\<lparr>new_best_structs := [], found_new_best_struct := False\<rparr>) w"
    unfolding w_def by (rule search_fold_extends)
  then have bs: "best_structs w = best_structs v" by (simp add: pass_extends_def)
  from assms(1) show "new_best_structs v' = new_best_structs w"
    unfolding search_pass_def Let_def w_def [symmetric]
    by (auto split: if_splits list.splits option.splits)
  from assms(1) show "visited_structs v' = visited_structs w"
    unfolding search_pass_def Let_def w_def [symmetric]
    by (auto split: if_splits list.splits option.splits)
  from assms(1) bs show "found_new_best_struct w \<Longrightarrow>
           best_structs v' = merge_best (beam_size f) (best_structs v) (new_best_structs w)
           \<and> best_structs v' \<noteq> []
           \<and> (\<exists>last_xyz. xyz_new w = Some last_xyz \<and>
                 found_new_best_struct v' = (\<not> 50 \<le> length last_xyz))"
    unfolding search_pass_def Let_def w_def [symmetric]
    by (auto split: if_splits list.splits option.splits)
  from assms(1) show "\<not> found_new_best_struct w \<Longrightarrow> v' = w"
    unfolding search_pass_def Let_def w_def [symmetric]
    by (auto split: if_splits list.splits option.splits)
qed

lemma search_pass_pool:
  assumes "search_pass f v = Inr v'"
  shows "\<exists>attempts.
           visited_structs v' = visited_structs v @ attempts \<and>
           map entry_objective (new_best_structs v') =
             filter (\<lambda>obj. is_new_best obj (best_structs v)) (map fst attempts)"
    and "new_best_structs v' \<noteq> [] \<Longrightarrow>
           best_structs v' = merge_best (beam_size f) (best_structs v) (new_best_structs v')"
    and "new_best_structs v' = [] \<Longrightarrow> best_structs v' = best_structs v"
proof -
  define w where "w = foldl (\<lambda>w s. expand_struct f s w)
                 (v\<lparr>new_best_structs := [], found_new_best_struct := False\<rparr>) (best_structs v)"
  have ext: "pass_extends (v\<lparr>new_best_structs := [], found_new_best_struct := False\<rparr>) w"
    unfolding w_def by (rule search_fold_extends)
  note c = search_pass_cases [OF assms, folded w_def]
  from ext obtain attempts stored where e:
    "best_structs w = best_structs v"
    "visited_structs w = visited_structs v @ attempts"
    "new_best_structs w = stored"
    "map entry_objective stored = filter (\<lambda>obj. is_new_best obj (best_structs v)) (map fst attempts)"
    "found_new_best_struct w \<longleftrightarrow> stored \<noteq> []"
    unfolding pass_extends_def by auto
  show "\<exists>attempts.
           visited_structs v' = visited_structs v @ attempts \<and>
           map entry_objective (new_best_structs v') =
             filter (\<lambda>obj. is_new_best obj (best_structs v)) (map fst attempts)"
    using c(1,2) e by auto
  show "new_best_structs v' \<noteq> [] \<Longrightarrow>
           best_structs v' = merge_best (beam_size f) (best_structs v) (new_best_structs v')"
    using c(1,3) e by auto
  show "new_best_structs v' = [] \<Longrightarrow> best_structs v' = best_structs v"
    using c(1,4) e by auto
qed

lemma search_pass_nonempty:
  assumes "search_pass f v = Inr v'" and "best_structs v \<noteq> []"
  shows "best_structs v' \<noteq> []"
proof (cases "new_best_structs v' = []")
  case True
  then show ?thesis using search_pass_pool(3) [OF assms(1)] assms(2) by simp
next
  case False
  define w where "w = foldl (\<lambda>w s. expand_struct f s w)
                 (v\<lparr>new_best_structs := [], found_new_best_struct := False\<rparr>) (best_structs v)"
  have ext: "pass_extends (v\<lparr>new_best_structs := [], found_new_best_struct := False\<rparr>) w"
    unfolding w_def by (rule search_fold_extends)
  note c = search_pass_cases [OF assms(1), folded w_def]
  from ext False c(1) have "found_new_best_struct w" by (auto simp: pass_extends_def)
  then have "best_structs v' \<noteq> []" using c(3) by blast
  then show ?thesis .
qed

lemma search_pass_head:
  assumes "search_pass f v = Inr v'" and "best_structs v \<noteq> []"
  shows "entry_objective (hd (best_structs v')) \<le> entry_objective (hd (best_structs v))"
proof (cases "new_best_structs v' = []")
  case True
  then show ?thesis using search_pass_pool(3) [OF assms(1)] by simp
next
  case False
  have ne: "best_structs v' \<noteq> []" by (rule search_pass_nonempty [OF assms])
  then obtain m rest where m: "best_structs v' = m # rest" by (cases "best_structs v'") auto
  have "merge_best (beam_size f) (best_structs v) (new_best_structs v') = m # rest"
    using search_pass_pool(2) [OF assms(1) False] m by simp
  moreover have "hd (best_structs v) \<in> set (best_structs v) \<union> set (new_best_structs v')"
    using assms(2) by simp
  ultimately show ?thesis using merge_best_head_least m by fastforce
qed

lemma demo1: "search_pass demo_fitter (init_vars demo_fitter 100) = Inr demo_pass1"
  by (simp add: search_pass_def init_vars_def demo_fitter_def demo_pass1_def expand_struct_def
      try_struct_def is_new_best_def merge_best_def py_slice_to_def entry_key_def
      entry_objective_def entry_id_def entry_xyz_def entry_next_def Let_def)

lemma demo2: "search_pass demo_fitter demo_pass1 = Inr demo_pass2"
  by (simp add: search_pass_def demo_fitter_def demo_pass1_def demo_pass2_def expand_struct_def
      try_struct_def is_new_best_def merge_best_def py_slice_to_def entry_key_def
      entry_objective_def entry_id_def entry_xyz_def entry_next_def Let_def insert_commute)

lemma demo3: "search_pass demo_fitter demo_pass2 = Inr demo_pass3"
  by (simp add: search_pass_def demo_fitter_def demo_pass2_def demo_pass3_def expand_struct_def
      try_struct_def is_new_best_def merge_best_def py_slice_to_def entry_key_def
      entry_objective_def entry_id_def entry_xyz_def entry_next_def Let_def insert_commute)

lemma demo_loop: "search_loop demo_fitter (init_vars demo_fitter 100) = Some (Inr demo_pass3)"
proof -
  have 3: "search_loop demo_fitter demo_pass3 = Some (Inr demo_pass3)"
    by (subst search_loop.simps) (simp add: demo_pass3_def)
  have 2: "search_loop demo_fitter demo_pass2 = Some (Inr demo_pass3)"
    by (subst search_loop.simps) (simp add: demo3 3, simp add: demo_pass2_def)
  have 1: "search_loop demo_fitter demo_pass1 = Some (Inr demo_pass3)"
    by (subst search_loop.simps) (simp add: demo2 2, simp add: demo_pass1_def)
  show ?thesis
    by (subst search_loop.simps) (simp add: demo1 1, simp add: init_vars_def)
qed

lemma try_struct_assigned: "last_assigned (fst (try_struct f i xyz added v))"
  by (simp add: last_assigned_def try_struct_def Let_def)

lemma foldl_try_assigned:
  "last_assigned v \<Longrightarrow> last_assigned (foldl (\<lambda>w a. fst (try_struct f i xyz [a] w)) v as)"
  by (induction as arbitrary: v) (simp_all add: try_struct_assigned)

lemma expand_struct_assigned:
  assumes "last_assigned v"
  shows "last_assigned (expand_struct f s v)"
proof (cases "entry_id s \<in> expanded_ids v")
  case True
  with assms show ?thesis by (simp add: expand_struct_def)
next
  case False
  have upd: "\<And>u E. last_assigned u \<Longrightarrow> last_assigned (u\<lparr>expanded_ids := E\<rparr>)"
    by (simp add: last_assigned_def)
  show ?thesis
    using False assms
    by (auto simp: expand_struct_def Let_def split_beta
        intro!: upd foldl_try_assigned try_struct_assigned)
qed

lemma search_fold_assigned:
  "last_assigned v \<Longrightarrow> last_assigned (foldl (\<lambda>w s. expand_struct f s w) v pool)"
  by (induction pool arbitrary: v) (simp_all add: expand_struct_assigned)

lemma search_pass_returns:
  assumes "1 \<le> beam_size f"
  shows "\<exists>v'. search_pass f v = Inr v'"
proof -
  define v0 where "v0 = v\<lparr>new_best_structs := [], found_new_best_struct := False\<rparr>"
  define w where "w = foldl (\<lambda>w s. expand_struct f s w) v0 (best_structs v)"
  have ext: "pass_extends v0 w" unfolding w_def by (rule search_fold_extends)
  have asg: "last_assigned w"
    unfolding w_def by (rule search_fold_assigned) (simp add: v0_def last_assigned_def)
  show ?thesis
  proof (cases "found_new_best_struct w")
    case False
    then show ?thesis by (simp add: search_pass_def Let_def w_def v0_def)
  next
    case True
    with ext have "new_best_structs w \<noteq> []" by (auto simp: pass_extends_def v0_def)
    then have "sort_key entry_key (best_structs w @ new_best_structs w) \<noteq> []"
      by (metis append_is_Nil_conv length_0_conv length_sort)
    with assms have "merge_best (beam_size f) (best_structs w) (new_best_structs w) \<noteq> []"
      by (auto simp: merge_best_def py_slice_to_def)
    moreover from True asg obtain x where "xyz_new w = Some x"
      by (auto simp: last_assigned_def)
    ultimately show ?thesis using True
      by (auto simp: search_pass_def Let_def w_def [symmetric] v0_def [symmetric]
          split: list.splits)
  qed
qed

lemma search_loop_head:
  assumes "search_loop f v = Some r"
  shows "best_structs v \<noteq> [] \<longrightarrow> (\<forall>v'. r = Inr v' \<longrightarrow>
           best_structs v' \<noteq> [] \<and>
           entry_objective (hd (best_structs v')) \<le> entry_objective (hd (best_structs v)))"
proof (rule search_loop.raw_induct [where P = "\<lambda>f v r. best_structs v \<noteq> [] \<longrightarrow>
          (\<forall>v'. r = Inr v' \<longrightarrow> best_structs v' \<noteq> [] \<and>
             entry_objective (hd (best_structs v')) \<le> entry_objective (hd (best_structs v)))",
        OF _ assms])
  fix loop f v r
  assume IH: "\<And>f v r. loop f v = Some r \<Longrightarrow> best_structs v \<noteq> [] \<longrightarrow>
          (\<forall>v'. r = Inr v' \<longrightarrow> best_structs v' \<noteq> [] \<and>
             entry_objective (hd (best_structs v')) \<le> entry_objective (hd (best_structs v)))"
    and eq: "(if found_new_best_struct v
              then case search_pass f v of Inl e \<Rightarrow> Some (Inl e) | Inr v' \<Rightarrow> loop f v'
              else Some (Inr v)) = Some r"
  show "best_structs v \<noteq> [] \<longrightarrow>
          (\<forall>v'. r = Inr v' \<longrightarrow> best_structs v' \<noteq> [] \<and>
             entry_objective (hd (best_structs v')) \<le> entry_objective (hd (best_structs v)))"
  proof (cases "found_new_best_struct v")
    case False
    with eq show ?thesis by auto
  next
    case True
    show ?thesis
    proof (cases "search_pass f v")
      case (Inl e)
      with True eq show ?thesis by auto
    next
      case (Inr u)
      with True eq have "loop f u = Some r" by simp
      note ih = IH [OF this]
      show ?thesis
      proof (intro impI allI)
        fix v' assume ne: "best_structs v \<noteq> []" and r: "r = Inr v'"
        have une: "best_structs u \<noteq> []" by (rule search_pass_nonempty [OF Inr ne])
        have le1: "entry_objective (hd (best_structs u)) \<le> entry_objective (hd (best_structs v))"
          by (rule search_pass_head [OF Inr ne])
        from ih une r have "best_structs v' \<noteq> []"
          and le2: "entry_objective (hd (best_structs v')) \<le> entry_objective (hd (best_structs u))"
          by blast+
        then show "best_structs v' \<noteq> [] \<and>
             entry_objective (hd (best_structs v')) \<le> entry_objective (hd (best_structs v))"
          using le1 by (blast intro: order_trans)
      qed
    qed
  qed
qed

text \<open>
  Claim C1. A pass of the search stores an expansion exactly when its objective is strictly
  below the objective of some member of the current pool. When a pass stored at least one
  expansion, the new pool is the old pool and the stored candidates together, sorted
  ascending, cut to \<^verbatim>\<open>beam_size\<close>; its first entry has the least objective of all of
  them. So the objective of the first pool entry never grows, over one pass and over the
  whole loop. With \<^verbatim>\<open>beam_size\<close> at least 1 a pass always returns.
\<close>

theorem beam_pool_merge_best_nonincreasing:
  fixes f :: "('o::linorder, 'a) atom_fitter"
  shows
    "(search_pass f v = Inr v' \<longrightarrow>
        (\<exists>attempts.
           visited_structs v' = visited_structs v @ attempts \<and>
           map entry_objective (new_best_structs v') =
             filter (\<lambda>obj. is_new_best obj (best_structs v)) (map fst attempts)) \<and>
        (new_best_structs v' \<noteq> [] \<longrightarrow>
           best_structs v' =
             py_slice_to (beam_size f)
               (sort_key entry_key (best_structs v @ new_best_structs v')) \<and>
           sorted (map entry_objective (best_structs v')) \<and>
           mset (best_structs v') \<subseteq># mset (best_structs v) + mset (new_best_structs v') \<and>
           (0 \<le> beam_size f \<longrightarrow> int (length (best_structs v')) \<le> beam_size f) \<and>
           (\<forall>s \<in> set (best_structs v) \<union> set (new_best_structs v').
              entry_objective (hd (best_structs v')) \<le> entry_objective s)) \<and>
        (best_structs v \<noteq> [] \<longrightarrow>
           best_structs v' \<noteq> [] \<and>
           entry_objective (hd (best_structs v')) \<le> entry_objective (hd (best_structs v)))) \<and>
     (search_loop f v = Some (Inr v'') \<and> best_structs v \<noteq> [] \<longrightarrow>
        best_structs v'' \<noteq> [] \<and>
        entry_objective (hd (best_structs v'')) \<le> entry_objective (hd (best_structs v))) \<and>
     (1 \<le> beam_size f \<longrightarrow> (\<exists>u. search_pass f v = Inr u))"
proof (intro conjI impI)
  assume p: "search_pass f v = Inr v'"
  show "\<exists>attempts.
           visited_structs v' = visited_structs v @ attempts \<and>
           map entry_objective (new_best_structs v') =
             filter (\<lambda>obj. is_new_best obj (best_structs v)) (map fst attempts)"
    by (rule search_pass_pool(1) [OF p])
  {
    assume n: "new_best_structs v' \<noteq> []"
    have m: "best_structs v' = merge_best (beam_size f) (best_structs v) (new_best_structs v')"
      by (rule search_pass_pool(2) [OF p n])
    then show "best_structs v' =
             py_slice_to (beam_size f)
               (sort_key entry_key (best_structs v @ new_best_structs v'))"
      by (simp add: merge_best_def)
    show "sorted (map entry_objective (best_structs v'))"
      unfolding m by (rule sorted_key_objective) (rule merge_best_sorted)
    show "mset (best_structs v') \<subseteq># mset (best_structs v) + mset (new_best_structs v')"
      unfolding m by (rule merge_best_subset)
    show "int (length (best_structs v')) \<le> beam_size f" if "0 \<le> beam_size f"
      unfolding m merge_best_def by (rule py_slice_to_length [OF that])
    show "\<forall>s \<in> set (best_structs v) \<union> set (new_best_structs v').
              entry_objective (hd (best_structs v')) \<le> entry_objective s"
    proof
      fix s assume s: "s \<in> set (best_structs v) \<union> set (new_best_structs v')"
      from search_pass_pool(1) [OF p] obtain attempts :: "('o, 'a) visited_entry list" where
        e: "map entry_objective (new_best_structs v') =
              filter (\<lambda>obj. is_new_best obj (best_structs v)) (map fst attempts)"
        by blast
      from n have "map entry_objective (new_best_structs v') \<noteq> []" by simp
      with e obtain obj where "is_new_best obj (best_structs v)"
        by (auto simp: filter_empty_conv)
      then have "best_structs v \<noteq> []" by (auto simp: is_new_best_def)
      then have "best_structs v' \<noteq> []" by (rule search_pass_nonempty [OF p])
      then obtain b rest where b: "best_structs v' = b # rest"
        by (cases "best_structs v'") auto
      with m have "merge_best (beam_size f) (best_structs v) (new_best_structs v') = b # rest"
        by simp
      from merge_best_head_least [OF this s] b
      show "entry_objective (hd (best_structs v')) \<le> entry_objective s" by simp
    qed
  }
  {
    assume ne: "best_structs v \<noteq> []"
    show "best_structs v' \<noteq> []" by (rule search_pass_nonempty [OF p ne])
    show "entry_objective (hd (best_structs v')) \<le> entry_objective (hd (best_structs v))"
      by (rule search_pass_head [OF p ne])
  }
next
  assume a: "search_loop f v = Some (Inr v'') \<and> best_structs v \<noteq> []"
  with search_loop_head [of f v "Inr v''"]
  show "best_structs v'' \<noteq> []"
    and "entry_objective (hd (best_structs v'')) \<le> entry_objective (hd (best_structs v))"
    by blast+
next
  assume "1 \<le> beam_size f"
  then show "\<exists>u. search_pass f v = Inr u" by (rule search_pass_returns)
qed

theorem beam_pool_merge_best_nonincreasing_witness:
  "search_pass demo_fitter (init_vars demo_fitter 100) = Inr demo_pass1 \<and>
   new_best_structs demo_pass1 \<noteq> [] \<and>
   best_structs (init_vars demo_fitter 100) \<noteq> [] \<and>
   (0::int) \<le> beam_size demo_fitter \<and> 1 \<le> beam_size demo_fitter \<and>
   search_loop demo_fitter (init_vars demo_fitter 100) = Some (Inr demo_pass3) \<and>
   best_structs demo_pass1 =
     py_slice_to 2 (sort_key entry_key
       (best_structs (init_vars demo_fitter 100) @ new_best_structs demo_pass1)) \<and>
   entry_objective (hd (best_structs demo_pass1)) \<le> 100 \<and>
   entry_objective (hd (best_structs demo_pass3)) \<le> 100"
  using beam_pool_merge_best_nonincreasing
    [of demo_fitter "init_vars demo_fitter 100" demo_pass1 demo_pass3]
    demo1 demo_loop
  by (simp add: demo_pass1_def init_vars_def demo_fitter_def entry_objective_def)

text \<open>
  Claim C2. The size cap of line 563 reads \<^verbatim>\<open>xyz_new\<close>, the structure of the last
  expansion attempted in the pass, not the first pool entry. In the worked search the
  second pass stores a structure of 50 atoms, which becomes the first pool entry, and then
  tries a structure of 2 atoms: \<^verbatim>\<open>found_new_best_struct\<close> stays set and a third pass
  runs, on a pool whose best entry has 50 atoms.
\<close>

theorem size_cap_reads_last_attempt:
  "search_pass demo_fitter (init_vars demo_fitter 100) = Inr demo_pass1 \<and>
   search_pass demo_fitter demo_pass1 = Inr demo_pass2 \<and>
   length (entry_xyz (hd (best_structs demo_pass2))) = 50 \<and>
   xyz_new demo_pass2 = Some [1, 5] \<and>
   found_new_best_struct demo_pass2 \<and>
   search_loop demo_fitter demo_pass2 = search_loop demo_fitter demo_pass3 \<and>
   struct_count demo_pass3 = struct_count demo_pass2 + 1"
proof -
  have "search_loop demo_fitter demo_pass2 = search_loop demo_fitter demo_pass3"
    by (subst search_loop.simps) (simp add: demo3, simp add: demo_pass2_def)
  then show ?thesis
    by (simp add: demo1 demo2 demo_pass2_def demo_pass3_def entry_xyz_def)
qed

subsection \<open>Gradient refinement\<close>

lemma gd_loop_run:
  "0 \<le> i \<Longrightarrow> i \<le> n_iters \<Longrightarrow>
   gd_loop g vals n_iters i v = gd_forward g vals ((gd_round g vals ^^ nat (n_iters - i)) v)"
proof (induction g vals n_iters i v rule: gd_loop.induct)
  case (1 g vals n_iters i v)
  show ?case
  proof (cases "i = n_iters")
    case True
    then show ?thesis by (subst gd_loop.simps) simp
  next
    case False
    with 1(2,3) have lt: "i < n_iters" by simp
    then have n: "nat (n_iters - i) = Suc (nat (n_iters - (i + 1)))" by simp
    have "gd_loop g vals n_iters i v =
          gd_loop g vals n_iters (i + 1) (gd_round g vals v)"
      using lt False by (subst gd_loop.simps) (simp add: Let_def gd_round_def)
    also have "\<dots> = gd_forward g vals
        ((gd_round g vals ^^ nat (n_iters - (i + 1))) (gd_round g vals v))"
      using 1(1) [OF _ refl False] lt 1(2) by (simp add: gd_round_def [symmetric])
    finally show ?thesis unfolding n by (simp add: funpow_swap1)
  qed
qed

lemma gd_round_iterate:
  "gd_xyz ((gd_round g vals ^^ k) v) = snd ((solver_step g ^^ k) (gd_solver v, gd_xyz v))
   \<and> gd_solver ((gd_round g vals ^^ k) v) = fst ((solver_step g ^^ k) (gd_solver v, gd_xyz v))
   \<and> gd_steps ((gd_round g vals ^^ k) v) = gd_steps v + k"
proof (induction k)
  case 0
  show ?case by simp
next
  case (Suc k)
  then show ?case
    by (simp add: gd_round_def gd_backward_step_def gd_forward_def Let_def split_beta)
qed

lemma gd_forward_fields:
  "gd_xyz (gd_forward g vals v) = gd_xyz v"
  "gd_steps (gd_forward g vals v) = gd_steps v"
  "gd_pred (gd_forward g vals v) = c2grid g (gd_xyz v)"
  "gd_diff (gd_forward g vals v) = map2 (-) vals (c2grid g (gd_xyz v))"
  "gd_loss (gd_forward g vals v) = fit_loss_of (fit_L1_loss g) (map2 (-) vals (c2grid g (gd_xyz v)))"
  by (simp_all add: gd_forward_def Let_def)

text \<open>
  Claim C7. For every \<^verbatim>\<open>n_iters\<close> that is not negative, \<^verbatim>\<open>fit_gd\<close> returns after
  exactly \<^verbatim>\<open>n_iters\<close> optimiser steps, whatever the losses on the way: the coordinates
  after these steps, their rendered density, the residual (target minus rendered), and
  the loss of that residual (half the sum of squares, or the sum of absolute values under
  \<^verbatim>\<open>fit_L1_loss\<close>). A negative \<^verbatim>\<open>n_iters\<close> is the one case that raises.
\<close>

theorem fit_gd_runs_budget:
  "(0 \<le> n_iters \<longrightarrow>
      (let xyz' = snd ((solver_step g ^^ nat n_iters) (solver, xyz));
           grid_pred = c2grid g xyz';
           grid_diff = map2 (-) vals grid_pred
       in fit_gd g solver vals xyz n_iters =
            Inr ((xyz', grid_pred, grid_diff,
                  (if fit_L1_loss g then sum_list (map abs grid_diff)
                   else sum_list (map (\<lambda>d. d ^ 2) grid_diff) / 2)),
                 nat n_iters))) \<and>
   (n_iters < 0 \<longrightarrow> fit_gd g solver vals xyz n_iters = Inl UnboundLocalError)"
proof (intro conjI impI)
  assume n: "0 \<le> n_iters"
  let ?v0 = "\<lparr>gd_solver = solver, gd_xyz = xyz, gd_pred = [], gd_diff = [],
                   gd_loss = 0, gd_steps = 0\<rparr>"
  have run: "gd_loop g vals n_iters 0 ?v0 =
               gd_forward g vals ((gd_round g vals ^^ nat n_iters) ?v0)"
    using gd_loop_run [where i = 0 and n_iters = n_iters and g = g and vals = vals and v = ?v0]
      n by simp
  note it = gd_round_iterate [where g = g and vals = vals and k = "nat n_iters" and v = ?v0]
  show "let xyz' = snd ((solver_step g ^^ nat n_iters) (solver, xyz));
            grid_pred = c2grid g xyz';
            grid_diff = map2 (-) vals grid_pred
        in fit_gd g solver vals xyz n_iters =
             Inr ((xyz', grid_pred, grid_diff,
                   (if fit_L1_loss g then sum_list (map abs grid_diff)
                    else sum_list (map (\<lambda>d. d ^ 2) grid_diff) / 2)),
                  nat n_iters)"
    using n it
    by (simp add: fit_gd_def run gd_forward_fields Let_def fit_loss_of_def l1_loss_def
        l2_loss_def)
next
  assume "n_iters < 0"
  then show "fit_gd g solver vals xyz n_iters = Inl UnboundLocalError"
    by (simp add: fit_gd_def)
qed

theorem fit_gd_runs_budget_witness:
  "(0::int) \<le> 2 \<and> fit_gd demo_gd () [3] [0] 2 = Inr (([2], [2], [1], 1 / 2), 2) \<and>
   (-1::int) < 0 \<and> fit_gd demo_gd () [3] [0] (-1) = Inl UnboundLocalError"
  using fit_gd_runs_budget
      [where n_iters = 2 and g = demo_gd and solver = "()" and xyz = "[0]" and vals = "[3]"]
    fit_gd_runs_budget
      [where n_iters = "-1" and g = demo_gd and solver = "()" and xyz = "[0]" and vals = "[3]"]
  by (simp add: demo_gd_def numeral_2_eq_2 Let_def)

subsection \<open>The objective of the empty structure\<close>

text \<open>
  Claim C3, as the code has it. The fit loss of the empty structure is the L1 magnitude of
  the target under \<^verbatim>\<open>fit_L1_loss\<close>, and otherwise half the square of its L2 magnitude
  (half the sum of squares), not the L2 magnitude itself. Under \<^verbatim>\<open>constrain_types\<close> the
  objective is the pair of the L1 magnitude of the type counts and this fit loss.
\<close>

theorem initial_objective_full_target:
  "objective_fit_loss (initial_objective constrain l1 type_counts vals) =
     (if l1 then l1_magnitude vals else (l2_magnitude vals)\<^sup>2 / 2) \<and>
   initial_objective True l1 type_counts vals =
     Inr (l1_magnitude type_counts, if l1 then l1_magnitude vals else (l2_magnitude vals)\<^sup>2 / 2) \<and>
   initial_objective False l1 type_counts vals =
     Inl (if l1 then l1_magnitude vals else (l2_magnitude vals)\<^sup>2 / 2)"
proof -
  have "0 \<le> (\<Sum>x\<leftarrow>vals. x\<^sup>2)" by (rule sum_list_nonneg) auto
  then have "(l2_magnitude vals)\<^sup>2 = (\<Sum>x\<leftarrow>vals. x\<^sup>2)" by (simp add: l2_magnitude_def)
  then show ?thesis
    by (simp add: initial_objective_def objective_fit_loss_def fit_loss_of_def l1_loss_def
        l2_loss_def l1_magnitude_def Let_def)
qed

text \<open>
  Claim C3 as written fails: for the one-voxel target \<open>[1]\<close> without \<^verbatim>\<open>fit_L1_loss\<close>
  the fit loss is 1/2, and the L2 magnitude is 1.
\<close>

theorem initial_objective_l2_counterexample:
  "objective_fit_loss (initial_objective False False [] [1]) = 1 / 2 \<and>
   l2_magnitude [1] = 1 \<and>
   objective_fit_loss (initial_objective False False [] [1]) \<noteq> l2_magnitude [1]"
  by (simp add: initial_objective_def objective_fit_loss_def fit_loss_of_def l2_loss_def
      l2_magnitude_def Let_def)

subsection \<open>The atom detector\<close>

lemma sort_descending_sorted:
  "sorted_wrt (\<lambda>p q. fst q \<le> fst p) (sort_descending g)"
proof -
  have "sorted (map (\<lambda>p. - fst p) (sort_descending g))"
    by (simp add: sort_descending_def)
  then show ?thesis by (simp add: sorted_wrt_map sorted_wrt_iff_nth_less sorted_iff_nth_mono_less less_imp_le)
qed

lemma sort_descending_values: "fst ` set (sort_descending g) \<subseteq> set g"
  by (auto simp: sort_descending_def dest: set_zip_leftD)

lemma detect_candidates_sorted: "sorted_wrt by_value (detect_candidates d a)"
proof -
  let ?ps = "map (unravel (n_channels a) (grid_dim a))
     (sort_descending (reflect_peak (peak_value d)
        (if apply_conv d then convolve a (grid a) else grid a)))"
  have "sorted_wrt (\<lambda>p q. gp_value q \<le> gp_value p) ?ps"
    using sort_descending_sorted by (simp add: sorted_wrt_map unravel_def Let_def)
  then have "sorted_wrt (\<lambda>p q. gp_value q \<le> gp_value p)
       (has_atoms_left (constrain_types d) (types a) (apply_threshold (threshold d) ?ps))"
    by (auto simp: has_atoms_left_def apply_threshold_def sorted_wrt_filter split: option.splits)
  then show ?thesis
    by (simp add: detect_candidates_def Let_def sorted_wrt_map locate_def split_beta)
qed

lemma nms_matrix_sorted:
  assumes "sorted_wrt R atoms"
  shows "sorted_wrt R (nms_matrix md r atoms)"
proof -
  have "sorted_wrt (\<lambda>i j. R (atoms ! i) (atoms ! j)) [0..<length atoms]"
    using assms by (simp add: sorted_wrt_iff_nth_less)
  then show ?thesis
    by (simp add: nms_matrix_def sorted_wrt_map sorted_wrt_filter)
qed

lemma nms_loop_sorted:
  "sorted_wrt R (kept @ rest) \<Longrightarrow> sorted_wrt R (nms_loop md r kept rest)"
proof (induction rest arbitrary: kept)
  case Nil
  then show ?case by simp
next
  case (Cons x rest)
  from Cons.prems have 1: "sorted_wrt R (kept @ rest)" by (auto simp: sorted_wrt_append)
  from Cons.prems have 2: "sorted_wrt R ((kept @ [x]) @ rest)" by simp
  show ?case using Cons.IH [OF 1] Cons.IH [OF 2] by simp
qed

lemma suppress_sorted:
  assumes "sorted_wrt R atoms"
  shows "sorted_wrt R (suppress d r atoms)"
proof (cases atoms)
  case Nil
  then show ?thesis by (simp add: suppress_def nms_matrix_def split: option.splits)
next
  case (Cons x rest)
  with assms have "sorted_wrt R ([x] @ rest)" by simp
  then have "sorted_wrt R (nms_loop md r [x] rest)" for md by (rule nms_loop_sorted)
  with assms Cons show ?thesis
    by (auto simp: suppress_def nms_matrix_sorted split: option.splits)
qed

lemma detect_survivors_sorted: "sorted_wrt by_value (detect_survivors d a)"
  unfolding detect_survivors_def by (rule suppress_sorted) (rule detect_candidates_sorted)

text \<open>
  Claim C6. With \<^verbatim>\<open>n_atoms_detect\<close> at least 0 the detector returns the first
  \<^verbatim>\<open>n_atoms_detect\<close> of the atoms that survived the earlier steps, so at most that many;
  the survivors are in descending order of value, so no atom left out has a larger value
  than one returned. With a negative \<^verbatim>\<open>n_atoms_detect\<close> every survivor is returned.
\<close>

theorem detect_atoms_limit:
  "detect_atoms d a =
     map (\<lambda>x. (at_xyz x, at_c x))
       (if 0 \<le> n_atoms_detect d then take (nat (n_atoms_detect d)) (detect_survivors d a)
        else detect_survivors d a) \<and>
   (0 \<le> n_atoms_detect d \<longrightarrow> int (length (detect_atoms d a)) \<le> n_atoms_detect d) \<and>
   (n_atoms_detect d < 0 \<longrightarrow> length (detect_atoms d a) = length (detect_survivors d a)) \<and>
   (\<forall>i j. i < length (detect_atoms d a) \<and> length (detect_atoms d a) \<le> j \<and>
          j < length (detect_survivors d a) \<longrightarrow>
          at_value (detect_survivors d a ! j) \<le> at_value (detect_survivors d a ! i))"
proof -
  have len: "length (detect_atoms d a) \<le> length (detect_survivors d a)"
    by (simp add: detect_atoms_def limit_atoms_def py_slice_to_def)
  have "at_value (detect_survivors d a ! j) \<le> at_value (detect_survivors d a ! i)"
    if "i < length (detect_atoms d a)" "length (detect_atoms d a) \<le> j"
      "j < length (detect_survivors d a)" for i j
    using detect_survivors_sorted [of d a] that
    by (auto simp: sorted_wrt_iff_nth_less)
  then show ?thesis
    by (auto simp: detect_atoms_def limit_atoms_def py_slice_to_def)
qed

lemmas detect_unfold =
  detect_candidates_def reflect_peak_def sort_descending_def unravel_def apply_threshold_def
  has_atoms_left_def locate_def Let_def

lemma upt_8: "[0..<8] = [0, 1, 2, 3, 4, 5, 6, 7]"
  by code_simp

lemma demo_fields:
  "min_dist demo_detector = Some 1" "n_atoms_detect demo_detector = 2"
  "min_dist demo_unlimited = Some 1" "n_atoms_detect demo_unlimited = - 1"
  "atomic_radius demo_args = (\<lambda>c. 1)"
  by (simp_all add: demo_detector_def demo_unlimited_def demo_args_def)

lemma demo_candidates:
  "detect_candidates demo_detector demo_args = [demo_first, demo_second]"
  "detect_candidates demo_unlimited demo_args = [demo_first, demo_second]"
  by (simp_all add: detect_unfold demo_detector_def demo_unlimited_def demo_args_def
      demo_first_def demo_second_def upt_8)

lemma demo_too_close: "too_close 1 (\<lambda>c. 1) demo_second demo_first"
  by (simp add: too_close_def dist2_def demo_first_def demo_second_def)

lemma demo_survivors_limited:
  "detect_survivors demo_detector demo_args = [demo_first]"
  by (simp add: detect_survivors_def demo_candidates suppress_def demo_fields
      nms_matrix_def demo_too_close upt_rec [of 0] upt_rec [of 1] upt_rec [of 2])

lemma demo_survivors_unlimited:
  "detect_survivors demo_unlimited demo_args = [demo_first, demo_second]"
  by (simp add: detect_survivors_def demo_candidates suppress_def demo_fields)

theorem detect_atoms_limit_witness:
  "(0::int) \<le> n_atoms_detect demo_detector \<and>
   n_atoms_detect demo_unlimited < 0 \<and>
   int (length (detect_atoms demo_detector demo_args)) \<le> 2 \<and>
   detect_atoms demo_detector demo_args = [((- 1 / 2, - 1 / 2, - 1 / 2), 0)] \<and>
   length (detect_atoms demo_unlimited demo_args) = 2"
  using detect_atoms_limit [of demo_detector demo_args]
    detect_atoms_limit [of demo_unlimited demo_args]
  by (simp add: demo_fields demo_survivors_limited demo_survivors_unlimited demo_first_def)

lemma sum_list_all_zero: "(\<forall>x \<in> set xs. f x = (0::real)) \<Longrightarrow> sum_list (map f xs) = 0"
  by (induction xs) auto

lemma convolve_zero:
  assumes "\<forall>x \<in> set g. x = 0"
  shows "\<forall>x \<in> set (convolve a g). x = 0"
proof -
  have "(\<Sum>j\<leftarrow>[0..<length g]. kernel_weight a i j * g ! j) = 0" for i
    using assms by (intro sum_list_all_zero) auto
  then show ?thesis by (simp add: convolve_def)
qed

lemma reflect_peak_zero:
  assumes "\<forall>x \<in> set g. x = 0"
  shows "\<forall>x \<in> set (reflect_peak pv g). x \<le> 0"
  using assms by (auto simp: reflect_peak_def split: option.splits)

lemma suppress_Nil: "suppress d r [] = []"
  by (simp add: suppress_def nms_matrix_def split: option.splits)

text \<open>
  Claim C5, as the code has it. On an all-zero field the detector returns no atom when a
  threshold that is not negative is applied: convolution keeps the zeros, the reflection
  at the peak value leaves no entry above 0, and no entry exceeds the threshold.
\<close>

theorem detect_atoms_zero_grid:
  assumes "\<forall>x \<in> set (grid a). x = 0" and "threshold d = Some t" and "0 \<le> t"
  shows "detect_atoms d a = []"
proof -
  let ?g1 = "if apply_conv d then convolve a (grid a) else grid a"
  let ?g2 = "reflect_peak (peak_value d) ?g1"
  have "\<forall>x \<in> set ?g1. x = 0" using assms(1) convolve_zero [OF assms(1)] by simp
  then have g2: "\<forall>x \<in> set ?g2. x \<le> 0" by (rule reflect_peak_zero)
  have "fst p \<le> 0" if "p \<in> set (sort_descending ?g2)" for p
  proof -
    from that have "fst p \<in> fst ` set (sort_descending ?g2)" by (rule imageI)
    then have "fst p \<in> set ?g2" using sort_descending_values [of ?g2] by blast
    with g2 show ?thesis by blast
  qed
  then have "apply_threshold (threshold d)
      (map (unravel (n_channels a) (grid_dim a)) (sort_descending ?g2)) = []"
    using assms(2,3) by (fastforce simp: apply_threshold_def filter_empty_conv unravel_def Let_def)
  then have "detect_candidates d a = []"
    by (simp add: detect_candidates_def Let_def has_atoms_left_def)
  then show ?thesis
    by (simp add: detect_atoms_def detect_survivors_def suppress_Nil limit_atoms_def
        py_slice_to_def)
qed

theorem detect_atoms_zero_grid_witness:
  "grid zero_args = [0] \<and> threshold demo_detector = Some (1 / 2) \<and>
   detect_atoms demo_detector zero_args = []"
  using detect_atoms_zero_grid [of zero_args demo_detector "1 / 2"]
  by (simp add: zero_args_def demo_detector_def demo_args_def)

text \<open>
  Claim C5 as written, for every configuration, fails: with the threshold \<open>-1\<close> the
  one-voxel zero field yields one atom, at the centre.
\<close>

theorem detect_atoms_zero_grid_counterexample:
  "grid zero_args = [0] \<and> detect_atoms lenient_detector zero_args = [((0, 0, 0), 0)]"
  by (simp add: detect_atoms_def limit_atoms_def py_slice_to_def detect_survivors_def
      suppress_def detect_unfold zero_args_def lenient_detector_def demo_detector_def
      demo_args_def)

lemma dist2_nonneg: "0 \<le> dist2 p q"
  by (cases p; cases q) (simp add: dist2_def)

lemma dist2_commute: "dist2 p q = dist2 q p"
  by (cases p; cases q) (simp add: dist2_def power2_commute)

lemma too_close_within:
  assumes "0 \<le> md * (r (at_c x) + r (at_c y))"
  shows "too_close md r x y \<longleftrightarrow> within_min_dist md r y x"
proof -
  let ?b = "md * (r (at_c x) + r (at_c y))"
  have "sqrt (dist2 (at_xyz x) (at_xyz y)) < ?b \<longleftrightarrow> dist2 (at_xyz x) (at_xyz y) < ?b\<^sup>2"
    using assms dist2_nonneg [of "at_xyz x" "at_xyz y"]
    by (metis real_sqrt_less_iff real_sqrt_abs abs_of_nonneg)
  then show ?thesis
    by (auto simp: too_close_def within_min_dist_def distance_def dist2_commute add.commute)
qed

lemma nms_matrix_rule:
  assumes "0 < md" and "\<forall>x \<in> set atoms. 0 \<le> r (at_c x)"
  shows "nms_matrix md r atoms =
           map (\<lambda>i. atoms ! i)
             (filter (\<lambda>i. \<not> suppressed_by_earlier md r atoms i) [0..<length atoms])"
proof -
  have "list_ex (\<lambda>j. too_close md r (atoms ! i) (atoms ! j)) [0..<i] \<longleftrightarrow>
        suppressed_by_earlier md r atoms i" if "i < length atoms" for i
  proof -
    have "too_close md r (atoms ! i) (atoms ! j) \<longleftrightarrow> within_min_dist md r (atoms ! j) (atoms ! i)"
      if "j < i" for j
    proof (rule too_close_within)
      from that \<open>i < length atoms\<close> have "atoms ! i \<in> set atoms" "atoms ! j \<in> set atoms" by simp_all
      with assms(2) have "0 \<le> r (at_c (atoms ! i)) + r (at_c (atoms ! j))" by (simp add: add_nonneg_nonneg)
      with assms(1) show "0 \<le> md * (r (at_c (atoms ! i)) + r (at_c (atoms ! j)))" by simp
    qed
    then show ?thesis by (auto simp: suppressed_by_earlier_def list_ex_iff)
  qed
  then have "filter (\<lambda>i. \<not> list_ex (\<lambda>j. too_close md r (atoms ! i) (atoms ! j)) [0..<i])
               [0..<length atoms] =
             filter (\<lambda>i. \<not> suppressed_by_earlier md r atoms i) [0..<length atoms]"
    by (intro filter_cong) auto
  then show ?thesis by (simp add: nms_matrix_def)
qed

text \<open>
  Claim C4, as the code has it. With \<^verbatim>\<open>min_dist\<close> positive, \<^verbatim>\<open>n_atoms_detect\<close> above 1,
  fewer than 1000 candidates and radii that are not negative, the suppression step keeps
  exactly the atoms with no earlier atom of the same channel within the distance
  \<open>min_dist * (r_a + r_b)\<close>, in their order. Of two such atoms the earlier one alone is
  kept.
\<close>

theorem suppress_matrix_rule:
  assumes "min_dist d = Some md" and "0 < md" and "1 < n_atoms_detect d"
    and "length atoms < 1000" and "\<forall>x \<in> set atoms. 0 \<le> r (at_c x)"
  shows "suppress d r atoms =
           map (\<lambda>i. atoms ! i)
             (filter (\<lambda>i. \<not> suppressed_by_earlier md r atoms i) [0..<length atoms])"
  using assms(1-4) nms_matrix_rule [OF assms(2,5)] by (simp add: suppress_def)

theorem suppress_matrix_rule_witness:
  "min_dist demo_detector = Some 1 \<and> (0::real) < 1 \<and> 1 < n_atoms_detect demo_detector \<and>
   length [demo_first, demo_second] < 1000 \<and>
   suppressed_by_earlier 1 (\<lambda>c. 1) [demo_first, demo_second] 1 \<and>
   suppress demo_detector (\<lambda>c. 1) [demo_first, demo_second] = [demo_first]"
proof -
  have w: "within_min_dist 1 (\<lambda>c. 1) demo_first demo_second"
    by (simp add: within_min_dist_def distance_def dist2_def demo_first_def demo_second_def)
  have s: "suppressed_by_earlier 1 (\<lambda>c. 1) [demo_first, demo_second] 1"
    "\<not> suppressed_by_earlier 1 (\<lambda>c. 1) [demo_first, demo_second] 0"
    using w by (simp_all add: suppressed_by_earlier_def)
  show ?thesis
    using suppress_matrix_rule [of demo_detector 1 "[demo_first, demo_second]" "\<lambda>c. 1"] s
    by (simp add: demo_fields upt_rec [of 0] upt_rec [of 1] upt_rec [of 2])
qed

text \<open>
  Claim C4 as written, for every candidate list whenever \<^verbatim>\<open>min_dist\<close> is positive,
  fails: line 299 skips the step unless \<^verbatim>\<open>n_atoms_detect > 1\<close>. With
  \<^verbatim>\<open>n_atoms_detect = -1\<close> (no limit) two atoms of one channel at distance 1, with
  \<open>min_dist * (r_a + r_b) = 2\<close>, are both returned.
\<close>

theorem suppress_gate_counterexample:
  "min_dist demo_unlimited = Some 1 \<and> n_atoms_detect demo_unlimited = - 1 \<and>
   detect_candidates demo_unlimited demo_args = [demo_first, demo_second] \<and>
   within_min_dist 1 (atomic_radius demo_args) demo_first demo_second \<and>
   suppress demo_unlimited (atomic_radius demo_args) [demo_first, demo_second] =
     [demo_first, demo_second] \<and>
   detect_atoms demo_unlimited demo_args =
     [((- 1 / 2, - 1 / 2, - 1 / 2), 0), ((- 1 / 2, - 1 / 2, 1 / 2), 0)]"
proof -
  have w: "within_min_dist 1 (\<lambda>c. 1) demo_first demo_second"
    by (simp add: within_min_dist_def distance_def dist2_def demo_first_def demo_second_def)
  show ?thesis
    using w
    by (simp add: demo_fields demo_candidates detect_atoms_def limit_atoms_def
        demo_survivors_unlimited suppress_def demo_first_def demo_second_def)
qed

lemma nms_loop_prefix: "\<exists>ys. nms_loop md r kept rest = kept @ ys"
proof (induction rest arbitrary: kept)
  case Nil
  show ?case by simp
next
  case (Cons x rest)
  from Cons.IH [of kept] Cons.IH [of "kept @ [x]"] show ?case by auto
qed

lemma line_close:
  "too_close 1 (\<lambda>c. 1) (line_atom v z) (line_atom v' z') \<longleftrightarrow> (z - z')\<^sup>2 < 4"
  by (simp add: too_close_def dist2_def line_atom_def)

lemma chain_length: "length chain_atoms = 1000"
  by (simp add: chain_atoms_def chain_tail_def)

lemma chain_loop_keeps: "line_atom 1 3 \<in> set (suppress demo_detector (\<lambda>c. 1) chain_atoms)"
proof -
  have "suppress demo_detector (\<lambda>c. 1) chain_atoms =
          nms_loop 1 (\<lambda>c. 1) [line_atom 3 0] (line_atom 2 (3 / 2) # line_atom 1 3 # chain_tail)"
    using chain_length by (simp add: suppress_def demo_fields) (simp add: chain_atoms_def)
  also have "\<dots> = nms_loop 1 (\<lambda>c. 1) [line_atom 3 0, line_atom 1 3] chain_tail"
    by (simp add: line_close power2_eq_square)
  finally show ?thesis
    using nms_loop_prefix [of 1 "\<lambda>c. 1" "[line_atom 3 0, line_atom 1 3]" chain_tail] by auto
qed

lemma chain_matrix_drops: "line_atom 1 3 \<notin> set (nms_matrix 1 (\<lambda>c. 1) chain_atoms)"
proof
  assume "line_atom 1 3 \<in> set (nms_matrix 1 (\<lambda>c. 1) chain_atoms)"
  then obtain i where i: "i < length chain_atoms" "chain_atoms ! i = line_atom 1 3"
    and keep: "\<not> list_ex (\<lambda>j. too_close 1 (\<lambda>c. 1) (chain_atoms ! i) (chain_atoms ! j)) [0..<i]"
    by (auto simp: nms_matrix_def)
  have tail: "line_atom 1 3 \<notin> set chain_tail"
    by (auto simp: chain_tail_def line_atom_def)
  have "i = 2"
  proof (rule ccontr)
    assume "i \<noteq> 2"
    then consider "i = 0" | "i = 1" | "3 \<le> i" by linarith
    then show False
    proof cases
      case 1
      with i(2) show False by (simp add: chain_atoms_def line_atom_def)
    next
      case 2
      with i(2) show False by (simp add: chain_atoms_def line_atom_def)
    next
      case 3
      then obtain k where k: "i = 3 + k" using le_Suc_ex by blast
      with i(1) have "k < length chain_tail" by (simp add: chain_atoms_def)
      then have "chain_tail ! k \<in> set chain_tail" by simp
      moreover from k i(2) have "chain_tail ! k = line_atom 1 3"
        by (simp add: chain_atoms_def numeral_3_eq_3)
      ultimately show False using tail by simp
    qed
  qed
  moreover have "too_close 1 (\<lambda>c. 1) (chain_atoms ! 2) (chain_atoms ! 1)"
    by (simp add: chain_atoms_def line_close power2_eq_square numeral_2_eq_2)
  ultimately show False using keep by (auto simp: list_ex_iff)
qed

lemma chain_sorted: "sorted_wrt (\<lambda>x y. at_value y \<le> at_value x) chain_atoms"
proof -
  have "sorted_wrt (\<lambda>x y. at_value y \<le> at_value x) chain_tail"
    by (simp add: chain_tail_def sorted_wrt_map sorted_wrt_iff_nth_less line_atom_def
        frac_le)
  moreover have "\<forall>y \<in> set chain_tail. at_value y \<le> 1"
    by (auto simp: chain_tail_def line_atom_def)
  ultimately show ?thesis
    by (auto simp: chain_atoms_def line_atom_def)
qed

text \<open>
  Claim C10. The two suppression paths differ. The matrix path tests an atom against every
  earlier atom; the loop path tests it against the atoms kept so far. On a chain of three
  atoms of one channel, the second too close to the first and the third too close to the
  second only, the matrix path keeps the first atom and the loop path the first and the
  third. The list of 1000 candidates that starts with this chain takes the loop path, which
  keeps the third atom; the matrix path on the same list drops it.
\<close>

theorem nms_paths_differ:
  "length chain_atoms = 1000 \<and>
   sorted_wrt (\<lambda>x y. at_value y \<le> at_value x) chain_atoms \<and>
   line_atom 1 3 \<in> set (suppress demo_detector (\<lambda>c. 1) chain_atoms) \<and>
   line_atom 1 3 \<notin> set (nms_matrix 1 (\<lambda>c. 1) chain_atoms) \<and>
   nms_loop 1 (\<lambda>c. 1) [line_atom 3 0] [line_atom 2 (3 / 2), line_atom 1 3] =
     [line_atom 3 0, line_atom 1 3] \<and>
   nms_matrix 1 (\<lambda>c. 1) [line_atom 3 0, line_atom 2 (3 / 2), line_atom 1 3] = [line_atom 3 0]"
proof -
  have "nms_matrix 1 (\<lambda>c. 1) [line_atom 3 0, line_atom 2 (3 / 2), line_atom 1 3] = [line_atom 3 0]"
    by (simp add: nms_matrix_def line_close power2_eq_square upt_rec [of 0] upt_rec [of 1]
        upt_rec [of 2] upt_rec [of 3])
  then show ?thesis
    using chain_length chain_sorted chain_loop_keeps chain_matrix_drops
    by (simp add: line_close power2_eq_square)
qed

subsection \<open>The assignment-based RMSD\<close>

lemma interleave_mset: "ys \<in> set (interleave x xs) \<Longrightarrow> mset ys = add_mset x (mset xs)"
  by (induction xs arbitrary: ys) auto

lemma interleave_mid: "as @ x # bs \<in> set (interleave x (as @ bs))"
proof (induction as)
  case Nil
  show ?case by (cases bs) simp_all
next
  case (Cons a as)
  then show ?case by simp
qed

lemma permutations_of_mset: "set (permutations_of xs) = {ys. mset ys = mset xs}"
proof (induction xs)
  case Nil
  show ?case by simp
next
  case (Cons x xs)
  show ?case
  proof (intro set_eqI iffI)
    fix zs assume "zs \<in> set (permutations_of (x # xs))"
    then obtain ys where "ys \<in> set (permutations_of xs)" "zs \<in> set (interleave x ys)" by auto
    with Cons.IH show "zs \<in> {ys. mset ys = mset (x # xs)}"
      by (auto dest: interleave_mset)
  next
    fix zs assume "zs \<in> {ys. mset ys = mset (x # xs)}"
    then have m: "mset zs = add_mset x (mset xs)" by simp
    then have "x \<in> set zs" by (metis mset_eq_setD list.set_intros(1) mset.simps(2))
    then obtain as bs where zs: "zs = as @ x # bs" by (auto simp: in_set_conv_decomp)
    with m have "mset (as @ bs) = mset xs" by simp
    with Cons.IH have "as @ bs \<in> set (permutations_of xs)" by simp
    with interleave_mid [of as x bs] zs show "zs \<in> set (permutations_of (x # xs))" by auto
  qed
qed

lemma permutations_of_nonempty: "permutations_of xs \<noteq> []"
  using permutations_of_mset [of xs] by (metis (mono_tags, lifting) empty_iff list.set(1) mem_Collect_eq)

lemma assignment_cost_Min:
  "assignment_cost ps qs = Min (paired_cost ps ` {ys. mset ys = mset qs})"
  by (simp add: assignment_cost_def min_list_Min permutations_of_nonempty permutations_of_mset)

lemma paired_cost_mset:
  "paired_cost ps qs = sum_mset (image_mset (\<lambda>(p, q). dist2 p q) (mset (zip ps qs)))"
  by (simp add: paired_cost_def flip: sum_mset_sum_list)

lemma paired_cost_nonneg: "0 \<le> paired_cost ps qs"
  unfolding paired_cost_def by (rule sum_list_nonneg) (auto simp: dist2_nonneg)

lemma paired_cost_self: "paired_cost ps ps = 0"
  unfolding paired_cost_def
  by (induction ps) (auto simp: dist2_def)

lemma paired_cost_image_subset:
  assumes "mset ps' = mset ps" and "length ps = length qs"
  shows "paired_cost ps ` {ys. mset ys = mset qs} \<subseteq> paired_cost ps' ` {ys. mset ys = mset qs}"
proof
  fix v assume "v \<in> paired_cost ps ` {ys. mset ys = mset qs}"
  then obtain ys where ys: "mset ys = mset qs" and v: "v = paired_cost ps ys" by auto
  from ys have len: "length ys = length ps" using assms(2) by (metis mset_eq_length)
  from ex_mset_zip_left [OF len [symmetric] assms(1)]
  obtain ys' where l': "length ys' = length ps'" and z: "mset (zip ps' ys') = mset (zip ps ys)"
    by blast
  from z have "mset (map snd (zip ps' ys')) = mset (map snd (zip ps ys))" by simp
  with l' len have "mset ys' = mset ys" by simp
  moreover have "paired_cost ps' ys' = paired_cost ps ys" by (simp add: paired_cost_mset z)
  ultimately have "mset ys' = mset qs" "v = paired_cost ps' ys'" using ys v by simp_all
  then show "v \<in> paired_cost ps' ` {ys. mset ys = mset qs}" by blast
qed

lemma assignment_cost_perm:
  assumes "mset ps' = mset ps" and "mset qs' = mset qs" and "length ps = length qs"
  shows "assignment_cost ps' qs' = assignment_cost ps qs"
proof -
  have l': "length ps' = length qs" using assms(1,3) by (metis mset_eq_length)
  have "paired_cost ps ` {ys. mset ys = mset qs} = paired_cost ps' ` {ys. mset ys = mset qs}"
    using paired_cost_image_subset [OF assms(1,3)]
      paired_cost_image_subset [OF assms(1) [symmetric] l'] by blast
  then show ?thesis by (simp add: assignment_cost_Min assms(2))
qed

lemma assignment_cost_self: "assignment_cost ps ps = 0"
proof -
  have "Min (paired_cost ps ` {ys. mset ys = mset ps}) = 0"
  proof (rule Min_eqI)
    have "paired_cost ps ` {ys. mset ys = mset ps} = set (map (paired_cost ps) (permutations_of ps))"
      by (simp add: permutations_of_mset)
    then show "finite (paired_cost ps ` {ys. mset ys = mset ps})" by (metis List.finite_set)
    show "\<And>y. y \<in> paired_cost ps ` {ys. mset ys = mset ps} \<Longrightarrow> 0 \<le> y"
      by (auto simp: paired_cost_nonneg)
    show "0 \<in> paired_cost ps ` {ys. mset ys = mset ps}"
      using paired_cost_self [of ps] by (metis (mono_tags, lifting) image_eqI mem_Collect_eq)
  qed
  then show ?thesis by (simp add: assignment_cost_Min)
qed

lemma rows_of_mset:
  "mset (rows_of xyz c ch) = image_mset fst (filter_mset (\<lambda>p. snd p = ch) (mset (zip xyz c)))"
  by (simp add: rows_of_def)

lemma rows_of_length:
  "length xyz = length c \<Longrightarrow> length (rows_of xyz c ch) = count (mset c) ch"
  by (induction xyz c rule: list_induct2) (auto simp: rows_of_def)

lemma sort_eq_mset: "sort (c1::nat list) = sort c2 \<longleftrightarrow> mset c1 = mset c2"
proof
  assume "sort c1 = sort c2"
  then have "mset (sort c1) = mset (sort c2)" by simp
  then show "mset c1 = mset c2" by simp
next
  assume "mset c1 = mset c2"
  then show "sort c1 = sort c2"
    by (metis properties_for_sort sorted_sort mset_sort)
qed


lemma zip_mset_labels:
  assumes "length xyz = length c" and "length xyz' = length c'"
    and "mset (zip xyz' c') = mset (zip xyz c)"
  shows "mset c' = mset c"
proof -
  from assms(3) have "mset (map snd (zip xyz' c')) = mset (map snd (zip xyz c))" by simp
  with assms(1,2) show ?thesis by simp
qed

lemma min_ssd_perm:
  assumes "length xyz1 = length c1" and "length xyz1' = length c1'"
    and "mset (zip xyz1' c1') = mset (zip xyz1 c1)"
    and "length xyz2 = length c2" and "length xyz2' = length c2'"
    and "mset (zip xyz2' c2') = mset (zip xyz2 c2)"
    and "mset c1 = mset c2"
  shows "min_ssd xyz1' c1' xyz2' c2' = min_ssd xyz1 c1 xyz2 c2"
proof -
  have c1: "mset c1' = mset c1" by (rule zip_mset_labels [OF assms(1,2,3)])
  then have s: "sort c1' = sort c1" by (simp add: sort_eq_mset)
  have "assignment_cost (rows_of xyz1' c1' ch) (rows_of xyz2' c2' ch) =
        assignment_cost (rows_of xyz1 c1 ch) (rows_of xyz2 c2 ch)" for ch
  proof (rule assignment_cost_perm)
    show "mset (rows_of xyz1' c1' ch) = mset (rows_of xyz1 c1 ch)"
      by (simp only: rows_of_mset assms(3))
    show "mset (rows_of xyz2' c2' ch) = mset (rows_of xyz2 c2 ch)"
      by (simp only: rows_of_mset assms(6))
    show "length (rows_of xyz1 c1 ch) = length (rows_of xyz2 c2 ch)"
      by (simp add: rows_of_length assms(1,4,7))
  qed
  then show ?thesis by (simp add: min_ssd_def s)
qed

lemma min_ssd_self: "min_ssd xyz c xyz c = 0"
  by (simp add: min_ssd_def assignment_cost_self)

lemma get_min_rmsd_perm:
  assumes "length xyz1 = length c1" and "length xyz1' = length c1'"
    and "mset (zip xyz1' c1') = mset (zip xyz1 c1)"
    and "length xyz2 = length c2" and "length xyz2' = length c2'"
    and "mset (zip xyz2' c2') = mset (zip xyz2 c2)"
  shows "get_min_rmsd xyz1' c1' xyz2' c2' = get_min_rmsd xyz1 c1 xyz2 c2"
proof -
  have c1: "mset c1' = mset c1" by (rule zip_mset_labels [OF assms(1,2,3)])
  have c2: "mset c2' = mset c2" by (rule zip_mset_labels [OF assms(4,5,6)])
  have l: "length c1' = length c1" "length c2' = length c2"
    using c1 c2 by (metis mset_eq_length)+
  have s: "sort c1' = sort c1" "sort c2' = sort c2"
    using c1 c2 by (simp_all add: sort_eq_mset)
  show ?thesis
  proof (cases "sort c1 = sort c2")
    case False
    then show ?thesis by (simp add: get_min_rmsd_def l s)
  next
    case True
    then have "mset c1 = mset c2" by (simp add: sort_eq_mset)
    from min_ssd_perm [OF assms this] show ?thesis
      using assms(1,2,4,5) by (simp add: get_min_rmsd_def l s Let_def)
  qed
qed

text \<open>
  Claim C9, as the code has it. For labeled point sets (as many coordinates as labels)
  the result of \<^verbatim>\<open>get_min_rmsd\<close> does not change when the points of either input are
  permuted together with their labels, in particular when points of one channel change
  places; and it is 0 for two identical point sets that are not empty.
\<close>

theorem get_min_rmsd_invariant:
  "(length xyz1 = length c1 \<and> length xyz1' = length c1' \<and>
    mset (zip xyz1' c1') = mset (zip xyz1 c1) \<and>
    length xyz2 = length c2 \<and> length xyz2' = length c2' \<and>
    mset (zip xyz2' c2') = mset (zip xyz2 c2) \<longrightarrow>
      get_min_rmsd xyz1' c1' xyz2' c2' = get_min_rmsd xyz1 c1 xyz2 c2) \<and>
   (length xyz = length c \<and> c \<noteq> [] \<longrightarrow> get_min_rmsd xyz c xyz c = Inr 0)"
  using get_min_rmsd_perm [of xyz1 c1 xyz1' c1' xyz2 c2 xyz2' c2']
  by (auto simp: get_min_rmsd_def min_ssd_self Let_def)

lemma pair_rmsd: "get_min_rmsd pair_a [0, 0] pair_b [0, 0] = Inr 2"
  by (simp add: get_min_rmsd_def min_ssd_def assignment_cost_def paired_cost_def rows_of_def
      dist2_def pair_a_def pair_b_def Let_def)

theorem get_min_rmsd_invariant_witness:
  "length pair_a = length [0::nat, 0] \<and> length pair_a' = length [0::nat, 0] \<and>
   mset (zip pair_a' [0::nat, 0]) = mset (zip pair_a [0, 0]) \<and>
   length pair_b = length [0::nat, 0] \<and> [0::nat, 0] \<noteq> [] \<and>
   get_min_rmsd pair_a' [0, 0] pair_b [0, 0] = Inr 2 \<and>
   get_min_rmsd pair_a [0, 0] pair_a [0, 0] = Inr 0"
  using get_min_rmsd_invariant [of pair_a "[0, 0]" pair_a' "[0, 0]" pair_b "[0, 0]" pair_b "[0, 0]"
      pair_a "[0, 0]"] pair_rmsd
  by (simp add: pair_a_def pair_a'_def pair_b_def)

text \<open>
  Claim C9 as written, for every pair of compatible point sets, fails for two empty
  sets: they are identical, and the function raises instead of returning 0.
\<close>

theorem get_min_rmsd_identical_empty_counterexample:
  "get_min_rmsd [] [] [] [] \<noteq> Inr 0"
  by (simp add: get_min_rmsd_def)

subsection \<open>The call of get_min_rmsd\<close>



lemma points_at_new: "points_at (h @ Point_array ps # ys) (length h) = ps"
  by (simp add: points_at_def)

lemma ints_at_new: "ints_at (h @ Int_array cs # ys) (length h) = cs"
  by (simp add: ints_at_def)

lemma matrix_at_new: "matrix_at (h @ Float_matrix m # ys) (length h) = m"
  by (simp add: matrix_at_def)

lemma f64_None: "0 \<le> x \<Longrightarrow> f64 x = None \<longleftrightarrow> float64_max < x"
  by (auto simp: f64_def)





































lemma near_call:
  "fst (get_min_rmsd_call near_heap 0 1 2 3) = Inr (Some 2)"
  by (simp add: get_min_rmsd_call_def rmsd_copy_def rmsd_sort_labels_def rmsd_sort_points_def
      rmsd_channel_def linear_sum_assignment_def feasible_def assigned_entries_def total_cost_def
      dist2_matrix_def f64_def float64_max_def dist2_def rows_of_def f64_sum_def f64_add_def
      f64_sqrt_mean_def
      near_heap_def heap_new_def ints_at_def points_at_def matrix_at_def argsort_def
      take_ints_def take_points_def Let_def upt_rec [of 0] upt_rec [of 1] upt_rec [of 2])


end
